theory Spec2Isabelle
  imports Complex_Main
begin

section \<open>Data model (types/order.ts, services/orderSQS.ts)\<close>

text \<open>
  JavaScript numbers that carry money or quantities are modelled as \<open>real\<close>; timestamps
  (\<open>Date.getTime()\<close>, \<open>Date.now()\<close>) are integers of milliseconds, modelled as \<open>int\<close>.
  Field names that clash with HOL constants or with another record carry a prefix.
\<close>

record CreateOrderItemRequest =
  product_id :: string
  product_name :: string
  quantity :: real
  unit_price :: real

record CreateOrderRequest =
  customer_name :: string
  customer_email :: string
  items :: "CreateOrderItemRequest list"

text \<open>
  \<open>OrderEvent.data\<close> has type \<open>any\<close>; the three shapes the routes produce are the order
  request of a CREATE, the status object of an UPDATE and the empty object of a DELETE.
\<close>

datatype event_data =
    CreateData CreateOrderRequest
  | UpdateData string
  | EmptyData

record OrderEvent =
  event_id :: string
  event_type :: string
  orderId :: "string option"
  data :: "event_data option"
  timestamp :: int
  groupId :: string
  deduplicationId :: string

record MessageAttributes =
  SentTimestamp :: int
  GroupId :: string
  DeduplicationId :: string

record OrderEventMessage =
  MessageId :: string
  ReceiptHandle :: string
  Body :: OrderEvent
  Attributes :: MessageAttributes

datatype js_error = Error string

text \<open>
  The state of the \<open>OrderSQSService\<close> instance. \<open>timeouts\<close> holds the callbacks registered
  with \<open>setTimeout\<close> in \<open>returnMessage\<close> and not yet run: the time at which each is due and
  the message it will push.
\<close>

record OrderSQSService =
  queue :: "OrderEventMessage list"
  processingQueue :: "OrderEventMessage list"
  processedMessages :: "string set"
  deduplicationCache :: "string \<rightharpoonup> int"
  timeouts :: "(int \<times> OrderEventMessage) list"

definition newOrderSQSService :: OrderSQSService where
  "newOrderSQSService =
     \<lparr>queue = [], processingQueue = [], processedMessages = {},
      deduplicationCache = Map.empty, timeouts = []\<rparr>"

definition deduplicationWindowMs :: int where
  "deduplicationWindowMs = 5 * 60 * 1000"

definition maxRetries :: nat where
  "maxRetries = 3"

definition retryDelays :: "int list" where
  "retryDelays = [1000, 5000, 15000]"

section \<open>The queue (services/orderSQS.ts)\<close>

text \<open>\<open>getRetryCount\<close> ignores its argument and returns 0.\<close>

definition getRetryCount :: "string \<Rightarrow> nat" where
  "getRetryCount messageId = 0"

text \<open>
  \<open>isDuplicate\<close>: \<open>!lastSeen\<close> holds when the token has no entry and also when the recorded
  timestamp is 0.
\<close>

definition isDuplicate :: "OrderSQSService \<Rightarrow> string \<Rightarrow> int \<Rightarrow> bool" where
  "isDuplicate s dedupId ts =
     (case deduplicationCache s dedupId of
        None \<Rightarrow> False
      | Some lastSeen \<Rightarrow>
          if lastSeen = 0 then False else ts - lastSeen < deduplicationWindowMs)"

text \<open>
  \<open>sendMessage\<close>. The results of \<open>generateMessageId()\<close>, \<open>generateReceiptHandle()\<close> and
  \<open>new Date()\<close> come from the clock and the random generator; they are arguments here.
  \<open>id\<close> and \<open>timestamp\<close> of the event passed in are overwritten, as the object spread
  does. The result is the \<open>MessageId\<close> of the returned object and the new state.
  The \<open>messageReceived\<close> event emitted at the end starts the consumer's interval timer
  if it is stopped; it does not touch the queue and is left out.
\<close>

definition sendMessage ::
  "OrderEvent \<Rightarrow> string \<Rightarrow> string \<Rightarrow> int \<Rightarrow> OrderSQSService \<Rightarrow> string \<times> OrderSQSService" where
  "sendMessage event messageId receiptHandle ts s =
     (if isDuplicate s (deduplicationId event) ts then (messageId, s)
      else
        let message =
              \<lparr>MessageId = messageId,
               ReceiptHandle = receiptHandle,
               Body = event\<lparr>event_id := messageId, timestamp := ts\<rparr>,
               Attributes =
                 \<lparr>SentTimestamp = ts, GroupId = groupId event,
                  DeduplicationId = deduplicationId event\<rparr>\<rparr>
        in (messageId,
            s\<lparr>queue := queue s @ [message],
              deduplicationCache := (deduplicationCache s)(deduplicationId event \<mapsto> ts)\<rparr>))"

text \<open>The filter of \<open>receiveMessage\<close>: not in the processing queue (by id), not processed.\<close>

definition available :: "OrderSQSService \<Rightarrow> OrderEventMessage \<Rightarrow> bool" where
  "available s msg \<longleftrightarrow>
     \<not> list_ex (\<lambda>processing. MessageId processing = MessageId msg) (processingQueue s)
     \<and> MessageId msg \<notin> processedMessages s"

definition receiveMessage ::
  "nat \<Rightarrow> OrderSQSService \<Rightarrow> OrderEventMessage list \<times> OrderSQSService" where
  "receiveMessage maxNumberOfMessages s =
     (let availableMessages = filter (available s) (queue s);
          messagesToReceive = take maxNumberOfMessages availableMessages
      in if messagesToReceive = [] then ([], s)
         else (messagesToReceive,
               s\<lparr>processingQueue := processingQueue s @ messagesToReceive\<rparr>))"

text \<open>\<open>Array.prototype.findIndex\<close>: \<open>None\<close> stands for -1.\<close>

fun findIndex :: "('a \<Rightarrow> bool) \<Rightarrow> 'a list \<Rightarrow> nat option" where
  "findIndex P [] = None"
| "findIndex P (x # xs) = (if P x then Some 0 else map_option Suc (findIndex P xs))"

text \<open>\<open>xs.splice(i, 1)\<close> for an index in range.\<close>

definition splice1 :: "nat \<Rightarrow> 'a list \<Rightarrow> 'a list" where
  "splice1 i xs = take i xs @ drop (Suc i) xs"

text \<open>
  \<open>deleteMessage\<close> and \<open>returnMessage\<close> return the error thrown, if any, and the state
  they leave behind.
\<close>

definition deleteMessage ::
  "string \<Rightarrow> OrderSQSService \<Rightarrow> js_error option \<times> OrderSQSService" where
  "deleteMessage receiptHandle s =
     (case findIndex (\<lambda>msg. ReceiptHandle msg = receiptHandle) (processingQueue s) of
        None \<Rightarrow> (Some (Error ''Message not found in processing queue''), s)
      | Some messageIndex \<Rightarrow>
          let message = processingQueue s ! messageIndex
          in (None,
              s\<lparr>processingQueue := splice1 messageIndex (processingQueue s),
                processedMessages := insert (MessageId message) (processedMessages s)\<rparr>))"

text \<open>
  \<open>retryDelays[retryCount] || retryDelays[retryDelays.length - 1]\<close>: an index out of
  range gives \<open>undefined\<close>, and \<open>undefined\<close> and 0 are both falsy.
\<close>

definition retryDelay :: "nat \<Rightarrow> int" where
  "retryDelay retryCount =
     (if retryCount < length retryDelays \<and> retryDelays ! retryCount \<noteq> 0
      then retryDelays ! retryCount
      else retryDelays ! (length retryDelays - 1))"

definition returnMessage ::
  "string \<Rightarrow> int \<Rightarrow> OrderSQSService \<Rightarrow> js_error option \<times> OrderSQSService" where
  "returnMessage receiptHandle now s =
     (case findIndex (\<lambda>msg. ReceiptHandle msg = receiptHandle) (processingQueue s) of
        None \<Rightarrow> (Some (Error ''Message not found in processing queue''), s)
      | Some messageIndex \<Rightarrow>
          let message = processingQueue s ! messageIndex;
              s1 = s\<lparr>processingQueue := splice1 messageIndex (processingQueue s)\<rparr>;
              retryCount = getRetryCount (MessageId message)
          in if retryCount < maxRetries
             then (None, s1\<lparr>timeouts := timeouts s1 @ [(now + retryDelay retryCount, message)]\<rparr>)
             else (None, s1\<lparr>processedMessages := insert (MessageId message) (processedMessages s1)\<rparr>))"

text \<open>
  The timer callbacks of \<open>returnMessage\<close>: when the clock reaches \<open>now\<close>, every callback due
  by then runs, earliest first and in registration order among equals, and pushes its
  message onto \<open>queue\<close>.
\<close>

definition runTimers :: "int \<Rightarrow> OrderSQSService \<Rightarrow> OrderSQSService" where
  "runTimers now s =
     (let due = filter (\<lambda>t. fst t \<le> now) (timeouts s);
          later = filter (\<lambda>t. \<not> fst t \<le> now) (timeouts s)
      in s\<lparr>queue := queue s @ map snd (sort_key fst due), timeouts := later\<rparr>)"

record QueueAttributes =
  ApproximateNumberOfMessages :: nat
  ApproximateNumberOfMessagesNotVisible :: nat
  ApproximateNumberOfMessagesDelayed :: nat

definition getQueueAttributes :: "OrderSQSService \<Rightarrow> QueueAttributes" where
  "getQueueAttributes s =
     \<lparr>ApproximateNumberOfMessages = length (queue s),
      ApproximateNumberOfMessagesNotVisible = length (processingQueue s),
      ApproximateNumberOfMessagesDelayed = 0\<rparr>"

text \<open>\<open>purgeQueue\<close> resets the four fields; timers already registered stay registered.\<close>

definition purgeQueue :: "OrderSQSService \<Rightarrow> OrderSQSService" where
  "purgeQueue s =
     s\<lparr>queue := [], processingQueue := [], processedMessages := {},
       deduplicationCache := Map.empty\<rparr>"

text \<open>One run of the callback of \<open>startCleanupInterval\<close> at time \<open>now\<close>.\<close>

definition cleanupTick :: "int \<Rightarrow> OrderSQSService \<Rightarrow> OrderSQSService" where
  "cleanupTick now s =
     s\<lparr>deduplicationCache :=
         (\<lambda>key. case deduplicationCache s key of
                  None \<Rightarrow> None
                | Some ts \<Rightarrow> if now - ts > deduplicationWindowMs then None else Some ts)\<rparr>"

section \<open>Collaborators: PostgreSQL and Redis\<close>

text \<open>
  The stored order (\<open>Order\<close> of types/order.ts, the rows of tables \<open>orders\<close> and
  \<open>order_items\<close>). The columns \<open>created_at\<close> and \<open>updated_at\<close> are filled in by the
  database and are left out.
\<close>

record OrderItem =
  item_product_id :: string
  item_product_name :: string
  item_quantity :: real
  item_unit_price :: real
  total_price :: real

record Order =
  order_id :: string
  order_customer_name :: string
  order_customer_email :: string
  order_items :: "OrderItem list"
  total_amount :: real
  status :: string

text \<open>
  The JSON documents kept in Redis: one order (written by \<open>getOrderById\<close>), or a list of
  orders (written by \<open>getAllOrders\<close>, which the consumer never calls).
\<close>

datatype json_value = JOrder Order | JOrders "Order list"

text \<open>The calls made on the order store and on the cache, in the order they are made.\<close>

datatype call =
    StoreCreate event_data
  | StoreUpdateStatus string "string option"
  | StoreDelete string
  | CacheInvalidate "string option"

text \<open>
  Everything the consumer touches. \<open>orders\<close> is the committed content of the database,
  \<open>redis\<close> the content of the Redis database. The libraries \<open>pg\<close> and \<open>ioredis\<close> are not
  part of the repository: each of their calls either does its work or throws, and
  \<open>dbFaults\<close> and \<open>redisFaults\<close> say which, one entry per call in the order the calls are
  made (\<open>True\<close>: the call throws; past the end of the list no call throws).
  \<open>console\<close> holds the lines written with \<open>console.error\<close> and \<open>console.warn\<close>.
\<close>

record world =
  sqs :: OrderSQSService
  orders :: "Order list"
  redis :: "(string \<times> json_value) list"
  dbFaults :: "bool list"
  redisFaults :: "bool list"
  calls :: "call list"
  console :: "string list"

definition nextFault :: "bool list \<Rightarrow> bool \<times> bool list" where
  "nextFault fs = (case fs of [] \<Rightarrow> (False, []) | f # rest \<Rightarrow> (f, rest))"

definition redisCall :: "world \<Rightarrow> bool \<times> world" where
  "redisCall w = (fst (nextFault (redisFaults w)), w\<lparr>redisFaults := snd (nextFault (redisFaults w))\<rparr>)"

definition dbCall :: "world \<Rightarrow> bool \<times> world" where
  "dbCall w = (fst (nextFault (dbFaults w)), w\<lparr>dbFaults := snd (nextFault (dbFaults w))\<rparr>)"

definition logError :: "string \<Rightarrow> world \<Rightarrow> world" where
  "logError line w = w\<lparr>console := console w @ [line]\<rparr>"

definition startsWith :: "string \<Rightarrow> string \<Rightarrow> bool" where
  "startsWith pre key \<longleftrightarrow> take (length pre) key = pre"

text \<open>\<open>redis.keys(pre + '*')\<close> and \<open>redis.del(...keys)\<close> on the content.\<close>

definition redisKeys :: "string \<Rightarrow> world \<Rightarrow> string list" where
  "redisKeys pre w = filter (startsWith pre) (map fst (redis w))"

definition redisDel :: "string list \<Rightarrow> world \<Rightarrow> world" where
  "redisDel keys w = w\<lparr>redis := filter (\<lambda>kv. fst kv \<notin> set keys) (redis w)\<rparr>"

section \<open>CacheService (services/cacheService.ts)\<close>

text \<open>
  \<open>get\<close> and \<open>set\<close>: both catch the error of the Redis call, write it to the console
  and carry on (\<open>get\<close> then returns \<open>null\<close>). Expiry of entries after their TTL is not
  modelled.
\<close>

definition get_cache :: "string \<Rightarrow> world \<Rightarrow> json_value option \<times> world" where
  "get_cache key w =
     (let (failed, w1) = redisCall w
      in if failed then (None, logError ''Redis get error:'' w1)
         else (map_of (redis w1) key, w1))"

definition set_cache :: "string \<Rightarrow> json_value \<Rightarrow> world \<Rightarrow> world" where
  "set_cache key v w =
     (let (failed, w1) = redisCall w
      in if failed then logError ''Redis set error:'' w1
         else w1\<lparr>redis := (key, v) # filter (\<lambda>kv. fst kv \<noteq> key) (redis w1)\<rparr>)"

text \<open>The last step of \<open>invalidateOrderCache\<close>: delete the keys found, if any.\<close>

definition deleteFound :: "string list \<Rightarrow> world \<Rightarrow> world" where
  "deleteFound keys w =
     (if keys = [] then w
      else let (failed, w1) = redisCall w
           in if failed then logError ''Redis invalidateOrderCache error:'' w1
              else redisDel keys w1)"

text \<open>
  The keys \<open>invalidateOrderCache\<close> collects: with an order id, the key of that order if
  \<open>redis.exists\<close> finds it and every list key; without one, every order key and every
  list key. \<open>if (orderId)\<close> is false for \<open>undefined\<close> and for the empty string.
\<close>

definition keysToInvalidate :: "string option \<Rightarrow> world \<Rightarrow> string list" where
  "keysToInvalidate target w =
     (case target of
        Some (c # cs) \<Rightarrow>
          (if ''order:'' @ (c # cs) \<in> set (map fst (redis w)) then [''order:'' @ (c # cs)] else [])
          @ redisKeys ''orders:list:'' w
      | _ \<Rightarrow> redisKeys ''order:'' w @ redisKeys ''orders:list:'' w)"

text \<open>
  \<open>invalidateOrderCache\<close>. The whole body is inside \<open>try\<close>, and the \<open>catch\<close> writes a line
  to the console and returns: the function has no error result. Either branch makes two
  Redis calls to collect the keys (\<open>exists\<close> and \<open>keys\<close>, or \<open>keys\<close> twice), neither of
  which changes the content, and then deletes what it found.
\<close>

definition invalidateOrderCache :: "string option \<Rightarrow> world \<Rightarrow> world" where
  "invalidateOrderCache target w0 =
     (let w = w0\<lparr>calls := calls w0 @ [CacheInvalidate target]\<rparr>;
          (failed1, w1) = redisCall w
      in if failed1 then logError ''Redis invalidateOrderCache error:'' w1
         else
           let (failed2, w2) = redisCall w1
           in if failed2 then logError ''Redis invalidateOrderCache error:'' w2
              else deleteFound (keysToInvalidate target w2) w2)"

section \<open>OrderService (services/orderService.ts)\<close>

definition calculateTotalAmount :: "CreateOrderItemRequest list \<Rightarrow> real" where
  "calculateTotalAmount its =
     foldl (\<lambda>total item. total + quantity item * unit_price item) 0 its"

definition getOrderById :: "string \<Rightarrow> world \<Rightarrow> (js_error + json_value option) \<times> world" where
  "getOrderById ident w =
     (let (cachedOrder, w1) = get_cache (''order:'' @ ident) w
      in case cachedOrder of
           Some v \<Rightarrow> (Inr (Some v), w1)
         | None \<Rightarrow>
             let (failed, w2) = dbCall w1
             in if failed then (Inl (Error ''database error''), w2)
                else (case find (\<lambda>row. order_id row = ident) (orders w2) of
                        None \<Rightarrow> (Inr None, w2)
                      | Some row \<Rightarrow>
                          (Inr (Some (JOrder row)),
                           set_cache (''order:'' @ ident) (JOrder row) w2)))"

definition newOrder :: "string \<Rightarrow> CreateOrderRequest \<Rightarrow> Order" where
  "newOrder newId req =
     \<lparr>order_id = newId,
      order_customer_name = customer_name req,
      order_customer_email = customer_email req,
      order_items =
        map (\<lambda>item. \<lparr>item_product_id = product_id item,
                      item_product_name = product_name item,
                      item_quantity = quantity item,
                      item_unit_price = unit_price item,
                      total_price = quantity item * unit_price item\<rparr>) (items req),
      total_amount = calculateTotalAmount (items req),
      status = ''pending''\<rparr>"

text \<open>
  \<open>createOrder\<close>. \<open>newId\<close> is the result of \<open>generateId()\<close>. The statements from
  \<open>pool.connect()\<close> to \<open>COMMIT\<close> are one database step: the transaction inserts the order
  with its items or, when a call throws (a fault, an argument without \<open>items\<close>, an id
  already present under the primary key), inserts nothing and the error is rethrown.
  After the commit the order is read back and the cache entry of the order invalidated.
\<close>

definition createOrder ::
  "event_data \<Rightarrow> string \<Rightarrow> world \<Rightarrow> (js_error + json_value) \<times> world" where
  "createOrder orderData newId w0 =
     (let w = w0\<lparr>calls := calls w0 @ [StoreCreate orderData]\<rparr>;
          (failed, w1) = dbCall w
      in if failed then (Inl (Error ''database error''), w1)
         else
           (case orderData of
              CreateData req \<Rightarrow>
                if list_ex (\<lambda>row. order_id row = newId) (orders w1)
                then (Inl (Error ''duplicate key value''), w1)
                else
                  let w2 = w1\<lparr>orders := orders w1 @ [newOrder newId req]\<rparr>;
                      (r, w3) = getOrderById newId w2
                  in (case r of
                        Inl e \<Rightarrow> (Inl e, w3)
                      | Inr None \<Rightarrow> (Inl (Error ''Failed to create order''), w3)
                      | Inr (Some createdOrder) \<Rightarrow>
                          (Inr createdOrder, invalidateOrderCache (Some newId) w3))
            | _ \<Rightarrow> (Inl (Error ''TypeError: items is not iterable''), w1)))"

text \<open>
  \<open>updateOrderStatus\<close>. \<open>newStatus\<close> is \<open>None\<close> when \<open>event.data.status\<close> is
  \<open>undefined\<close>; column \<open>status\<close> is \<open>NOT NULL\<close>, so the update of an existing row throws.
\<close>

definition updateOrderStatus ::
  "string \<Rightarrow> string option \<Rightarrow> world \<Rightarrow> (js_error + json_value option) \<times> world" where
  "updateOrderStatus ident newStatus w0 =
     (let w = w0\<lparr>calls := calls w0 @ [StoreUpdateStatus ident newStatus]\<rparr>;
          (failed, w1) = dbCall w
      in if failed then (Inl (Error ''database error''), w1)
         else if \<not> list_ex (\<lambda>row. order_id row = ident) (orders w1) then (Inr None, w1)
         else
           (case newStatus of
              None \<Rightarrow> (Inl (Error ''null value in column status''), w1)
            | Some st \<Rightarrow>
                let w2 = w1\<lparr>orders :=
                            map (\<lambda>row. if order_id row = ident then row\<lparr>status := st\<rparr> else row)
                              (orders w1)\<rparr>
                in getOrderById ident (invalidateOrderCache (Some ident) w2)))"

definition deleteOrder :: "string \<Rightarrow> world \<Rightarrow> (js_error + bool) \<times> world" where
  "deleteOrder ident w0 =
     (let w = w0\<lparr>calls := calls w0 @ [StoreDelete ident]\<rparr>;
          (failed, w1) = dbCall w
      in if failed then (Inl (Error ''database error''), w1)
         else if list_ex (\<lambda>row. order_id row = ident) (orders w1)
         then (Inr True,
               invalidateOrderCache (Some ident)
                 (w1\<lparr>orders := filter (\<lambda>row. order_id row \<noteq> ident) (orders w1)\<rparr>))
         else (Inr False, w1))"

section \<open>OrderHandlerService (services/orderHandler.ts)\<close>

text \<open>
  Each handler returns the error it throws, if any. \<open>!event.orderId\<close> holds for a missing
  id and for the empty string. \<open>createOrder\<close> returns an order or throws, so the check
  \<open>!createdOrder\<close> of \<open>handleCreateOrder\<close> never fires.
\<close>

definition handleCreateOrder :: "OrderEvent \<Rightarrow> string \<Rightarrow> world \<Rightarrow> js_error option \<times> world" where
  "handleCreateOrder event newId w =
     (case data event of
        None \<Rightarrow> (Some (Error ''CREATE event missing order data''), w)
      | Some d \<Rightarrow>
          let (r, w1) = createOrder d newId w
          in (case r of
                Inl e \<Rightarrow> (Some e, w1)
              | Inr createdOrder \<Rightarrow> (None, invalidateOrderCache None w1)))"

definition handleUpdateOrder :: "OrderEvent \<Rightarrow> world \<Rightarrow> js_error option \<times> world" where
  "handleUpdateOrder event w =
     (case orderId event of
        Some (c # cs) \<Rightarrow>
          (case data event of
             None \<Rightarrow> (Some (Error ''UPDATE event missing update data''), w)
           | Some d \<Rightarrow>
               let newStatus = (case d of UpdateData st \<Rightarrow> Some st | _ \<Rightarrow> None);
                   (r, w1) = updateOrderStatus (c # cs) newStatus w
               in (case r of
                     Inl e \<Rightarrow> (Some e, w1)
                   | Inr None \<Rightarrow> (Some (Error (''Failed to update order '' @ (c # cs))), w1)
                   | Inr (Some updated) \<Rightarrow> (None, invalidateOrderCache (Some (c # cs)) w1)))
      | _ \<Rightarrow> (Some (Error ''UPDATE event missing orderId''), w))"

definition handleDeleteOrder :: "OrderEvent \<Rightarrow> world \<Rightarrow> js_error option \<times> world" where
  "handleDeleteOrder event w =
     (case orderId event of
        Some (c # cs) \<Rightarrow>
          let (r, w1) = deleteOrder (c # cs) w
          in (case r of
                Inl e \<Rightarrow> (Some e, w1)
              | Inr False \<Rightarrow> (Some (Error (''Failed to delete order '' @ (c # cs))), w1)
              | Inr True \<Rightarrow> (None, invalidateOrderCache None w1))
      | _ \<Rightarrow> (Some (Error ''DELETE event missing orderId''), w))"

text \<open>The \<open>switch\<close> of \<open>processMessage\<close>.\<close>

definition dispatch :: "OrderEvent \<Rightarrow> string \<Rightarrow> world \<Rightarrow> js_error option \<times> world" where
  "dispatch event newId w =
     (if event_type event = ''CREATE'' then handleCreateOrder event newId w
      else if event_type event = ''UPDATE'' then handleUpdateOrder event w
      else if event_type event = ''DELETE'' then handleDeleteOrder event w
      else (None, logError ''Unknown event type'' w))"

text \<open>
  \<open>processMessage\<close>: the \<open>try\<close> block is the dispatch followed by \<open>deleteMessage\<close>; an error
  thrown by either reaches the \<open>catch\<close>, which logs it and calls \<open>returnMessage\<close>. An
  error thrown by \<open>returnMessage\<close> leaves the function. \<open>newId\<close> is the id that
  \<open>generateId()\<close> yields if the event is a CREATE, \<open>now\<close> the time of the call.
\<close>

definition processMessage ::
  "OrderEventMessage \<Rightarrow> string \<Rightarrow> int \<Rightarrow> world \<Rightarrow> js_error option \<times> world" where
  "processMessage message newId now w =
     (let (handled, w1) = dispatch (Body message) newId w;
          (tried, w2) =
            (case handled of
               Some e \<Rightarrow> (Some e, w1)
             | None \<Rightarrow>
                 let (deleted, q) = deleteMessage (ReceiptHandle message) (sqs w1)
                 in (deleted, w1\<lparr>sqs := q\<rparr>))
      in case tried of
           None \<Rightarrow> (None, w2)
         | Some e \<Rightarrow>
             let w3 = logError ''Error processing event'' w2;
                 (returned, q) = returnMessage (ReceiptHandle message) now (sqs w3)
             in (returned, w3\<lparr>sqs := q\<rparr>))"

text \<open>The \<open>for\<close> loop of \<open>processMessages\<close>; \<open>gen k\<close> is the id generated for message \<open>k\<close>.\<close>

fun processEach ::
  "OrderEventMessage list \<Rightarrow> (nat \<Rightarrow> string) \<Rightarrow> nat \<Rightarrow> int \<Rightarrow> world \<Rightarrow> js_error option \<times> world" where
  "processEach [] gen k now w = (None, w)"
| "processEach (message # rest) gen k now w =
     (case processMessage message (gen k) now w of
        (Some e, w1) \<Rightarrow> (Some e, w1)
      | (None, w1) \<Rightarrow> processEach rest gen (Suc k) now w1)"

definition processMessages :: "(nat \<Rightarrow> string) \<Rightarrow> int \<Rightarrow> world \<Rightarrow> world" where
  "processMessages gen now w =
     (let (messages, q) = receiveMessage 5 (sqs w);
          w1 = w\<lparr>sqs := q\<rparr>
      in if messages = [] then w1
         else (case processEach messages gen 0 now w1 of
                 (None, w2) \<Rightarrow> w2
               | (Some e, w2) \<Rightarrow> logError ''Error processing messages:'' w2))"

section \<open>Sequences of queue operations\<close>

text \<open>
  What can happen to the queue, one event at a time: a producer calls \<open>sendMessage\<close>, the
  consumer calls \<open>receiveMessage\<close>, \<open>deleteMessage\<close> or \<open>returnMessage\<close>, the clock runs the
  timers that are due or the cleanup callback, an operator purges the queue.
\<close>

datatype operation =
    Send OrderEvent string string int
  | Receive nat
  | Delete string
  | Return string int
  | Timers int
  | Cleanup int
  | Purge

fun step :: "operation \<Rightarrow> OrderSQSService \<Rightarrow> OrderSQSService" where
  "step (Send event messageId receiptHandle ts) s = snd (sendMessage event messageId receiptHandle ts s)"
| "step (Receive n) s = snd (receiveMessage n s)"
| "step (Delete receiptHandle) s = snd (deleteMessage receiptHandle s)"
| "step (Return receiptHandle now) s = snd (returnMessage receiptHandle now s)"
| "step (Timers now) s = runTimers now s"
| "step (Cleanup now) s = cleanupTick now s"
| "step Purge s = purgeQueue s"

fun run :: "operation list \<Rightarrow> OrderSQSService \<Rightarrow> OrderSQSService" where
  "run [] s = s"
| "run (x # xs) s = run xs (step x s)"

text \<open>The messages handed out by the \<open>receiveMessage\<close> calls of a run, in order.\<close>

fun leased :: "operation \<Rightarrow> OrderSQSService \<Rightarrow> OrderEventMessage list" where
  "leased (Receive n) s = fst (receiveMessage n s)"
| "leased _ s = []"

fun leases :: "operation list \<Rightarrow> OrderSQSService \<Rightarrow> OrderEventMessage list" where
  "leases [] s = []"
| "leases (x # xs) s = leased x s @ leases xs (step x s)"

text \<open>The ids that the \<open>sendMessage\<close> calls of a run generate.\<close>

fun sentId :: "operation \<Rightarrow> string set" where
  "sentId (Send event messageId receiptHandle ts) = {messageId}"
| "sentId _ = {}"

definition sentIds :: "operation list \<Rightarrow> string set" where
  "sentIds xs = (\<Union>x \<in> set xs. sentId x)"

text \<open>The message records the queue holds anywhere, and their ids.\<close>

definition heldMessages :: "OrderSQSService \<Rightarrow> OrderEventMessage set" where
  "heldMessages s = set (queue s) \<union> set (processingQueue s) \<union> snd ` set (timeouts s)"

definition heldIds :: "OrderSQSService \<Rightarrow> string set" where
  "heldIds s = MessageId ` heldMessages s"

text \<open>A sequence of \<open>sendMessage\<close> calls; the result lists the ids returned.\<close>

fun sendMessages ::
  "(OrderEvent \<times> string \<times> string \<times> int) list \<Rightarrow> OrderSQSService \<Rightarrow> string list \<times> OrderSQSService" where
  "sendMessages [] s = ([], s)"
| "sendMessages ((event, messageId, receiptHandle, ts) # rest) s =
     (let (returned, s1) = sendMessage event messageId receiptHandle ts s;
          (others, s2) = sendMessages rest s1
      in (returned # others, s2))"

section \<open>Scenarios\<close>

text \<open>
  An UPDATE for an order that does not exist, as route \<open>PUT /orders/:id/status\<close> builds
  it, the message \<open>sendMessage\<close> makes of it, and the queue after enqueueing it.
\<close>

definition updateMissing :: OrderEvent where
  "updateMissing =
     \<lparr>event_id = '''', event_type = ''UPDATE'', orderId = Some ''o404'',
      data = Some (UpdateData ''completed''), timestamp = 0, groupId = ''orders'',
      deduplicationId = ''update_o404_completed_1000''\<rparr>"

definition updateMessage :: OrderEventMessage where
  "updateMessage =
     \<lparr>MessageId = ''msg_1'', ReceiptHandle = ''receipt_1'',
      Body = updateMissing\<lparr>event_id := ''msg_1'', timestamp := 1000\<rparr>,
      Attributes = \<lparr>SentTimestamp = 1000, GroupId = ''orders'',
                    DeduplicationId = ''update_o404_completed_1000''\<rparr>\<rparr>"

definition enqueued :: OrderSQSService where
  "enqueued = snd (sendMessage updateMissing ''msg_1'' ''receipt_1'' 1000 newOrderSQSService)"

text \<open>
  One failed delivery at time \<open>now\<close>: the timers due have run, one message is leased and
  the consumer returns it with the receipt handle of \<open>updateMessage\<close>.
\<close>

definition failedDelivery :: "int \<Rightarrow> OrderSQSService \<Rightarrow> OrderSQSService" where
  "failedDelivery now s =
     snd (returnMessage ''receipt_1'' now (snd (receiveMessage 1 (runTimers now s))))"

text \<open>
  The happy path: a CREATE for customer Ada with one item, quantity 2 at 10.00, is
  enqueued at time 1000 into a fresh queue, with an empty database and an empty cache;
  one consumer tick runs at time 2000, and \<open>generateId()\<close> yields \<open>ord_1\<close>.
\<close>

definition adaRequest :: CreateOrderRequest where
  "adaRequest =
     \<lparr>customer_name = ''Ada'', customer_email = ''ada@example.com'',
      items = [\<lparr>product_id = ''p1'', product_name = ''Widget'', quantity = 2, unit_price = 10\<rparr>]\<rparr>"

definition createAda :: OrderEvent where
  "createAda =
     \<lparr>event_id = '''', event_type = ''CREATE'', orderId = Some ''order_1000_abc'',
      data = Some (CreateData adaRequest), timestamp = 0, groupId = ''orders'',
      deduplicationId = ''create_order_1000_abc_1000''\<rparr>"

definition adaMessage :: OrderEventMessage where
  "adaMessage =
     \<lparr>MessageId = ''msg_1'', ReceiptHandle = ''receipt_1'',
      Body = createAda\<lparr>event_id := ''msg_1'', timestamp := 1000\<rparr>,
      Attributes = \<lparr>SentTimestamp = 1000, GroupId = ''orders'',
                    DeduplicationId = ''create_order_1000_abc_1000''\<rparr>\<rparr>"

definition newWorld :: world where
  "newWorld =
     \<lparr>sqs = newOrderSQSService, orders = [], redis = [], dbFaults = [], redisFaults = [],
      calls = [], console = []\<rparr>"

definition adaQueued :: world where
  "adaQueued =
     newWorld\<lparr>sqs := snd (sendMessage createAda ''msg_1'' ''receipt_1'' 1000 newOrderSQSService)\<rparr>"

definition adaApplied :: world where
  "adaApplied = processMessages (\<lambda>k. ''ord_1'') 2000 adaQueued"

text \<open>The same event leased while every Redis call throws.\<close>

definition adaLeasedRedisDown :: world where
  "adaLeasedRedisDown =
     adaQueued\<lparr>sqs := snd (receiveMessage 5 (sqs adaQueued)),
               redisFaults := [True, True, True, True, True, True]\<rparr>"

text \<open>A leased message whose event type is not one of the three.\<close>

definition archiveMessage :: OrderEventMessage where
  "archiveMessage =
     \<lparr>MessageId = ''msg_7'', ReceiptHandle = ''receipt_7'',
      Body = \<lparr>event_id = ''msg_7'', event_type = ''ARCHIVE'', orderId = Some ''o1'',
              data = None, timestamp = 1000, groupId = ''orders'',
              deduplicationId = ''archive_o1''\<rparr>,
      Attributes = \<lparr>SentTimestamp = 1000, GroupId = ''orders'', DeduplicationId = ''archive_o1''\<rparr>\<rparr>"

definition archiveLeased :: world where
  "archiveLeased =
     newWorld\<lparr>sqs := newOrderSQSService\<lparr>queue := [archiveMessage],
                                         processingQueue := [archiveMessage]\<rparr>\<rparr>"

text \<open>
  The world after \<open>createOrder\<close> has stored Ada's order with Redis down: the read-back
  and the invalidation inside the order service have each logged their failure.
\<close>

definition adaStored :: world where
  "adaStored =
     \<lparr>sqs = \<lparr>queue = [adaMessage], processingQueue = [adaMessage], processedMessages = {},
             deduplicationCache = [''create_order_1000_abc_1000'' \<mapsto> 1000], timeouts = []\<rparr>,
      orders = [newOrder ''ord_1'' adaRequest], redis = [], dbFaults = [],
      redisFaults = [True, True, True],
      calls = [StoreCreate (CreateData adaRequest), CacheInvalidate (Some ''ord_1'')],
      console = [''Redis get error:'', ''Redis set error:'', ''Redis invalidateOrderCache error:'']\<rparr>"

section \<open>Predicates used to state the properties\<close>

text \<open>
  The store mutation an event asks for succeeds: the handler of the event's type passes
  its checks and the call on the order service returns what the handler accepts. The
  result is the world after that call and the scope the handler passes to
  \<open>invalidateOrderCache\<close> next.
\<close>

definition storeMutation :: "OrderEvent \<Rightarrow> string \<Rightarrow> world \<Rightarrow> (world \<times> string option) option" where
  "storeMutation event newId w =
     (if event_type event = ''CREATE'' then
        (case data event of
           None \<Rightarrow> None
         | Some d \<Rightarrow>
             (case createOrder d newId w of
                (Inr created, w1) \<Rightarrow> Some (w1, None)
              | (Inl e, w1) \<Rightarrow> None))
      else if event_type event = ''UPDATE'' then
        (case orderId event of
           Some (c # cs) \<Rightarrow>
             (case data event of
                None \<Rightarrow> None
              | Some d \<Rightarrow>
                  (case updateOrderStatus (c # cs)
                          (case d of UpdateData st \<Rightarrow> Some st | _ \<Rightarrow> None) w of
                     (Inr (Some updated), w1) \<Rightarrow> Some (w1, Some (c # cs))
                   | _ \<Rightarrow> None))
         | _ \<Rightarrow> None)
      else if event_type event = ''DELETE'' then
        (case orderId event of
           Some (c # cs) \<Rightarrow>
             (case deleteOrder (c # cs) w of
                (Inr True, w1) \<Rightarrow> Some (w1, None)
              | _ \<Rightarrow> None)
         | _ \<Rightarrow> None)
      else None)"

text \<open>
  One of the Redis calls that \<open>invalidateOrderCache\<close> makes throws: the two calls that
  collect the keys, and the \<open>del\<close> when keys were found.
\<close>

definition invalidationThrows :: "string option \<Rightarrow> world \<Rightarrow> bool" where
  "invalidationThrows target w \<longleftrightarrow>
     list_ex (\<lambda>f. f) (take (if keysToInvalidate target w = [] then 2 else 3) (redisFaults w))"

text \<open>
  Every enqueue of a sequence happens within the deduplication window of the last
  recording of the token, where there is one: the difference between the time of the
  enqueue and the recorded time is below \<open>deduplicationWindowMs\<close>.
\<close>

fun withinWindow ::
  "string \<Rightarrow> (OrderEvent \<times> string \<times> string \<times> int) list \<Rightarrow> OrderSQSService \<Rightarrow> bool" where
  "withinWindow token [] s = True"
| "withinWindow token ((event, messageId, receiptHandle, ts) # rest) s =
     ((case deduplicationCache s token of
         None \<Rightarrow> True
       | Some lastSeen \<Rightarrow> ts - lastSeen < deduplicationWindowMs)
      \<and> withinWindow token rest (snd (sendMessage event messageId receiptHandle ts s)))"

text \<open>The id of a message the queue holds determines the message record.\<close>

definition idsIdentify :: "OrderSQSService \<Rightarrow> bool" where
  "idsIdentify s \<longleftrightarrow>
     (\<forall>x \<in> heldMessages s. \<forall>y \<in> heldMessages s. MessageId x = MessageId y \<longrightarrow> x = y)"

text \<open>
  No record with id \<open>a\<close> is in flight, done or waiting on a retry timer: the event has
  not been leased (or nothing of its lease is left).
\<close>

definition unleased :: "string \<Rightarrow> OrderSQSService \<Rightarrow> bool" where
  "unleased a s \<longleftrightarrow>
     a \<notin> MessageId ` set (processingQueue s)
     \<and> a \<notin> processedMessages s
     \<and> a \<notin> MessageId ` snd ` set (timeouts s)"

text \<open>In a list of queued messages, no record with id \<open>a\<close> stands behind one with id \<open>b\<close>.\<close>

definition queuedInOrder :: "string \<Rightarrow> string \<Rightarrow> OrderEventMessage list \<Rightarrow> bool" where
  "queuedInOrder a b q \<longleftrightarrow> a \<notin> MessageId ` set (dropWhile (\<lambda>x. MessageId x \<noteq> b) q)"

text \<open>
  In a list of leases, in the order they were handed out: if the event with id \<open>a\<close> is
  leased at all, the event with id \<open>b\<close> is not leased before the first lease of \<open>a\<close>.
\<close>

definition leasedInOrder :: "string \<Rightarrow> string \<Rightarrow> OrderEventMessage list \<Rightarrow> bool" where
  "leasedInOrder a b ls \<longleftrightarrow>
     (a \<in> MessageId ` set ls \<longrightarrow> b \<notin> MessageId ` set (takeWhile (\<lambda>x. MessageId x \<noteq> a) ls))"

text \<open>
  Two enqueues in one group, with a cleanup run between them, then two ticks of a
  consumer that leases one message at a time and acknowledges the first.
\<close>

definition twoEnqueues :: "operation list" where
  "twoEnqueues =
     [Send createAda ''msg_1'' ''receipt_1'' 1000, Cleanup 1500,
      Send updateMissing ''msg_2'' ''receipt_2'' 2000,
      Receive 1, Delete ''receipt_1'', Receive 1]"

text \<open>Three enqueues with one deduplication id, the last just inside the window.\<close>

definition threeEnqueues :: "(OrderEvent \<times> string \<times> string \<times> int) list" where
  "threeEnqueues =
     [(updateMissing, ''msg_1'', ''receipt_1'', 1000),
      (updateMissing, ''msg_2'', ''receipt_2'', 2000),
      (updateMissing, ''msg_3'', ''receipt_3'', 300999)]"

section \<open>Basic facts\<close>

lemmas queue_defs =
  sendMessage_def isDuplicate_def newOrderSQSService_def receiveMessage_def available_def
  deleteMessage_def returnMessage_def splice1_def runTimers_def getRetryCount_def
  maxRetries_def retryDelay_def retryDelays_def Let_def

lemma findIndex_None: "findIndex P xs = None \<longleftrightarrow> (\<forall>x \<in> set xs. \<not> P x)"
  by (induction xs) auto

lemma findIndex_Some:
  "findIndex P xs = Some i \<Longrightarrow> i < length xs \<and> P (xs ! i) \<and> (\<forall>j < i. \<not> P (xs ! j))"
proof (induction xs arbitrary: i)
  case Nil
  then show ?case by simp
next
  case (Cons x xs)
  show ?case
  proof (cases "P x")
    case True
    with Cons.prems show ?thesis by simp
  next
    case False
    with Cons.prems obtain k where k: "findIndex P xs = Some k" "i = Suc k"
      by auto
    from Cons.IH[OF k(1)] False k(2) show ?thesis
      by (auto simp: nth_Cons split: nat.splits)
  qed
qed

lemma updateMessage_sel [simp]:
  "ReceiptHandle updateMessage = ''receipt_1''" "MessageId updateMessage = ''msg_1''"
  by (simp_all add: updateMessage_def)

lemma enqueued_eq:
  "enqueued =
     \<lparr>queue = [updateMessage], processingQueue = [], processedMessages = {},
      deduplicationCache = [''update_o404_completed_1000'' \<mapsto> 1000], timeouts = []\<rparr>"
  by (simp add: enqueued_def updateMessage_def updateMissing_def queue_defs)

lemma failedDelivery_eq:
  "failedDelivery now
     \<lparr>queue = updateMessage # q, processingQueue = [], processedMessages = {},
      deduplicationCache = c, timeouts = ts\<rparr> =
     \<lparr>queue = updateMessage # q @ map snd (sort_key fst (filter (\<lambda>t. fst t \<le> now) ts)),
      processingQueue = [], processedMessages = {}, deduplicationCache = c,
      timeouts = filter (\<lambda>t. \<not> fst t \<le> now) ts @ [(now + 1000, updateMessage)]\<rparr>"
  by (simp add: failedDelivery_def queue_defs)

section \<open>Retry exhaustion\<close>

text \<open>
  C1. After three consecutive lease-and-return rounds the fourth \<open>returnMessage\<close> should
  mark the event done, absent from pending and in-flight, with no further retry
  scheduled. \<open>getRetryCount\<close> returns 0 for every message, so the branch of
  \<open>returnMessage\<close> that adds the id to \<open>processedMessages\<close> is never taken: after four
  failed deliveries of \<open>updateMessage\<close> the id is not in \<open>processedMessages\<close>, a fifth push
  is scheduled one second later, and the message can be leased again.
\<close>

theorem fourth_return_still_retries:
  "processedMessages
     (failedDelivery 5000 (failedDelivery 4000 (failedDelivery 3000 (failedDelivery 2000 enqueued))))
     = {}
   \<and> timeouts
       (failedDelivery 5000 (failedDelivery 4000 (failedDelivery 3000 (failedDelivery 2000 enqueued))))
     = [(6000, updateMessage)]
   \<and> fst (receiveMessage 1
       (failedDelivery 5000 (failedDelivery 4000 (failedDelivery 3000 (failedDelivery 2000 enqueued)))))
     = [updateMessage]"
  by (simp add: enqueued_eq failedDelivery_eq) (simp add: receiveMessage_def available_def Let_def)

section \<open>Unknown receipt handles\<close>

text \<open>
  C3, as the code has it. When no message in the processing queue carries the receipt
  handle, \<open>deleteMessage\<close> and \<open>returnMessage\<close> throw
  \<open>Error('Message not found in processing queue')\<close> and leave the queue as it was.
\<close>

theorem unknown_handle_throws:
  assumes "\<forall>msg \<in> set (processingQueue s). ReceiptHandle msg \<noteq> h"
  shows "deleteMessage h s = (Some (Error ''Message not found in processing queue''), s)
       \<and> returnMessage h now s = (Some (Error ''Message not found in processing queue''), s)"
proof -
  from assms have "findIndex (\<lambda>msg. ReceiptHandle msg = h) (processingQueue s) = None"
    by (simp add: findIndex_None)
  then show ?thesis
    by (simp add: deleteMessage_def returnMessage_def)
qed

theorem unknown_handle_throws_witness:
  "processingQueue (snd (receiveMessage 5 enqueued)) = [updateMessage]
   \<and> deleteMessage ''receipt_2'' (snd (receiveMessage 5 enqueued))
       = (Some (Error ''Message not found in processing queue''), snd (receiveMessage 5 enqueued))
   \<and> returnMessage ''receipt_2'' 2000 (snd (receiveMessage 5 enqueued))
       = (Some (Error ''Message not found in processing queue''), snd (receiveMessage 5 enqueued))"
proof -
  have h: "\<forall>msg \<in> set (processingQueue (snd (receiveMessage 5 enqueued))).
             ReceiptHandle msg \<noteq> ''receipt_2''"
    by (simp add: enqueued_eq receiveMessage_def available_def Let_def)
  have "processingQueue (snd (receiveMessage 5 enqueued)) = [updateMessage]"
    by (simp add: enqueued_eq receiveMessage_def available_def Let_def)
  with unknown_handle_throws [OF h, of 2000] show ?thesis by simp
qed

text \<open>
  C3 as stated says the call does not throw. Acknowledging the same lease a second time
  throws.
\<close>

theorem second_acknowledge_throws:
  "fst (deleteMessage ''receipt_1''
         (snd (deleteMessage ''receipt_1'' (snd (receiveMessage 5 enqueued)))))
     = Some (Error ''Message not found in processing queue'')"
  by (simp add: enqueued_eq queue_defs)

section \<open>One lease at a time\<close>

text \<open>
  C6. No event should be in flight twice, and pending, in-flight and done should stay
  disjoint. \<open>receiveMessage\<close> leaves the messages it hands out in \<open>queue\<close>, and the
  timer of \<open>returnMessage\<close> pushes the returned message onto \<open>queue\<close> once more: after
  one lease, one return and one second, \<open>queue\<close> holds the message twice, and the next
  \<open>receiveMessage\<close> hands out both copies and puts both in the processing queue. After
  one of them is acknowledged the id is done while the other copy is still in flight.
\<close>

theorem returned_message_leased_twice:
  "fst (receiveMessage 5
         (runTimers 3000 (snd (returnMessage ''receipt_1'' 2000 (snd (receiveMessage 5 enqueued))))))
     = [updateMessage, updateMessage]
   \<and> processingQueue (snd (receiveMessage 5
         (runTimers 3000 (snd (returnMessage ''receipt_1'' 2000 (snd (receiveMessage 5 enqueued)))))))
     = [updateMessage, updateMessage]
   \<and> processingQueue (snd (deleteMessage ''receipt_1'' (snd (receiveMessage 5
         (runTimers 3000 (snd (returnMessage ''receipt_1'' 2000 (snd (receiveMessage 5 enqueued)))))))))
     = [updateMessage]
   \<and> processedMessages (snd (deleteMessage ''receipt_1'' (snd (receiveMessage 5
         (runTimers 3000 (snd (returnMessage ''receipt_1'' 2000 (snd (receiveMessage 5 enqueued)))))))))
     = {''msg_1''}"
  by (simp add: enqueued_eq queue_defs)

section \<open>The consumer\<close>

lemmas handler_defs =
  processMessages_def processMessage_def dispatch_def handleCreateOrder_def handleUpdateOrder_def
  handleDeleteOrder_def createOrder_def updateOrderStatus_def deleteOrder_def getOrderById_def
  newOrder_def calculateTotalAmount_def get_cache_def set_cache_def invalidateOrderCache_def
  keysToInvalidate_def deleteFound_def redisKeys_def redisDel_def startsWith_def redisCall_def
  dbCall_def nextFault_def logError_def

lemma adaMessage_sel [simp]:
  "ReceiptHandle adaMessage = ''receipt_1''" "MessageId adaMessage = ''msg_1''"
  by (simp_all add: adaMessage_def)

lemma adaQueued_eq:
  "adaQueued = newWorld\<lparr>sqs :=
     \<lparr>queue = [adaMessage], processingQueue = [], processedMessages = {},
      deduplicationCache = [''create_order_1000_abc_1000'' \<mapsto> 1000], timeouts = []\<rparr>\<rparr>"
  by (simp add: adaQueued_def adaMessage_def createAda_def queue_defs)

lemma adaBody: "Body adaMessage = createAda\<lparr>event_id := ''msg_1'', timestamp := 1000\<rparr>"
  by (simp add: adaMessage_def)

lemma invalidate_fields [simp]:
  "sqs (invalidateOrderCache t w) = sqs w"
  "orders (invalidateOrderCache t w) = orders w"
  "calls (invalidateOrderCache t w) = calls w @ [CacheInvalidate t]"
  "dbFaults (invalidateOrderCache t w) = dbFaults w"
  by (simp_all add: invalidateOrderCache_def deleteFound_def redisCall_def logError_def
        redisDel_def Let_def)

lemma keysToInvalidate_cong:
  "redis w' = redis w \<Longrightarrow> keysToInvalidate t w' = keysToInvalidate t w"
  by (simp add: keysToInvalidate_def redisKeys_def split: option.splits list.splits)

lemma invalidate_console:
  "console (invalidateOrderCache t w) =
     console w @ (if invalidationThrows t w then [''Redis invalidateOrderCache error:''] else [])"
proof -
  have k: "keysToInvalidate t
             (w\<lparr>calls := c, redisFaults := r\<rparr>) = keysToInvalidate t w" for c r
    by (rule keysToInvalidate_cong) simp
  show ?thesis
    by (cases "redisFaults w"; cases "tl (redisFaults w)"; cases "tl (tl (redisFaults w))")
       (auto simp: invalidateOrderCache_def invalidationThrows_def deleteFound_def redisCall_def
          nextFault_def logError_def redisDel_def Let_def k)
qed

lemma get_cache_sqs: "get_cache k w = (r, w1) \<Longrightarrow> sqs w1 = sqs w"
  by (auto simp: get_cache_def redisCall_def logError_def Let_def split: if_splits)

lemma set_cache_sqs [simp]: "sqs (set_cache k v w) = sqs w"
  by (simp add: set_cache_def redisCall_def logError_def Let_def)

lemma getOrderById_sqs:
  assumes "getOrderById i w = (r, w1)"
  shows "sqs w1 = sqs w"
proof -
  obtain c wa where g: "get_cache (''order:'' @ i) w = (c, wa)"
    by (cases "get_cache (''order:'' @ i) w")
  from get_cache_sqs [OF g] have "sqs wa = sqs w" .
  with assms g show ?thesis
    by (auto simp: getOrderById_def dbCall_def Let_def split: option.splits if_splits)
qed

lemma createOrder_sqs:
  assumes "createOrder d i w = (r, w1)"
  shows "sqs w1 = sqs w"
proof (cases d)
  case (CreateData req)
  define w2 where
    "w2 = w\<lparr>calls := calls w @ [StoreCreate d], dbFaults := snd (nextFault (dbFaults w)),
            orders := orders w @ [newOrder i req]\<rparr>"
  obtain g wa where g: "getOrderById i w2 = (g, wa)"
    by (cases "getOrderById i w2")
  from getOrderById_sqs [OF g] have "sqs wa = sqs w" by (simp add: w2_def)
  with assms g CreateData show ?thesis
    by (auto simp: createOrder_def dbCall_def Let_def w2_def
          split: if_splits sum.splits option.splits)
next
  case (UpdateData st)
  with assms show ?thesis
    by (auto simp: createOrder_def dbCall_def Let_def split: if_splits)
next
  case EmptyData
  with assms show ?thesis
    by (auto simp: createOrder_def dbCall_def Let_def split: if_splits)
qed

lemma updateOrderStatus_sqs:
  assumes "updateOrderStatus i st w = (r, w1)"
  shows "sqs w1 = sqs w"
  using assms
  by (auto simp: updateOrderStatus_def dbCall_def Let_def
        split: if_splits option.splits dest!: getOrderById_sqs)

lemma deleteOrder_sqs: "deleteOrder i w = (r, w1) \<Longrightarrow> sqs w1 = sqs w"
  by (auto simp: deleteOrder_def dbCall_def Let_def split: if_splits)

lemma storeMutation_sqs:
  assumes "storeMutation event newId w = Some (w1, scope)"
  shows "sqs w1 = sqs w"
  using assms
  unfolding storeMutation_def
  by (auto split: if_splits option.splits prod.splits sum.splits list.splits bool.splits
        dest: createOrder_sqs updateOrderStatus_sqs deleteOrder_sqs)

lemma storeMutation_dispatch:
  assumes "storeMutation event newId w = Some (w1, scope)"
  shows "dispatch event newId w = (None, invalidateOrderCache scope w1)"
  using assms
  unfolding storeMutation_def dispatch_def handleCreateOrder_def handleUpdateOrder_def
    handleDeleteOrder_def Let_def
  by (auto split: if_splits option.splits prod.splits sum.splits list.splits bool.splits)

lemma deleteMessage_found:
  assumes "list_ex (\<lambda>x. ReceiptHandle x = h) (processingQueue s)"
  shows "\<exists>i. findIndex (\<lambda>x. ReceiptHandle x = h) (processingQueue s) = Some i
           \<and> deleteMessage h s =
               (None, s\<lparr>processingQueue := splice1 i (processingQueue s),
                        processedMessages :=
                          insert (MessageId (processingQueue s ! i)) (processedMessages s)\<rparr>)"
proof -
  from assms have "findIndex (\<lambda>x. ReceiptHandle x = h) (processingQueue s) \<noteq> None"
    by (simp add: findIndex_None list_ex_iff)
  then obtain i where "findIndex (\<lambda>x. ReceiptHandle x = h) (processingQueue s) = Some i"
    by auto
  then show ?thesis by (simp add: deleteMessage_def Let_def)
qed

lemma adaLeasedRedisDown_eq:
  "adaLeasedRedisDown =
     \<lparr>sqs = \<lparr>queue = [adaMessage], processingQueue = [adaMessage], processedMessages = {},
             deduplicationCache = [''create_order_1000_abc_1000'' \<mapsto> 1000], timeouts = []\<rparr>,
      orders = [], redis = [], dbFaults = [],
      redisFaults = [True, True, True, True, True, True],
      calls = [], console = []\<rparr>"
  by (simp add: adaLeasedRedisDown_def adaQueued_eq newWorld_def receiveMessage_def
        available_def Let_def)

lemma adaStored_store:
  "storeMutation (Body adaMessage) ''ord_1'' adaLeasedRedisDown = Some (adaStored, None)"
  by (simp add: storeMutation_def adaBody createAda_def adaLeasedRedisDown_eq adaStored_def
        createOrder_def getOrderById_def get_cache_def set_cache_def invalidateOrderCache_def
        redisCall_def dbCall_def nextFault_def logError_def Let_def newOrder_def)

lemma archiveMessage_sel [simp]:
  "ReceiptHandle archiveMessage = ''receipt_7''" "MessageId archiveMessage = ''msg_7''"
  "event_type (Body archiveMessage) = ''ARCHIVE''"
  by (simp_all add: archiveMessage_def)

text \<open>
  C2. The happy path: one CREATE for Ada (one item, quantity 2 at 10.00) is enqueued,
  leased and applied. The order service is called once to create, and the order stored
  has total 20; the cache is asked once to invalidate every order and list entry (after
  the order service has invalidated the entry of the new order). Nothing is in flight
  and nothing can be leased afterwards, but \<open>ApproximateNumberOfMessages\<close> is 1, not 0:
  it is the length of \<open>queue\<close>, from which no message is ever removed.
\<close>

theorem happy_path_leaves_message_counted:
  "calls adaApplied =
       [StoreCreate (CreateData adaRequest), CacheInvalidate (Some ''ord_1''), CacheInvalidate None]
   \<and> map total_amount (orders adaApplied) = [20]
   \<and> getQueueAttributes (sqs adaApplied) =
       \<lparr>ApproximateNumberOfMessages = 1, ApproximateNumberOfMessagesNotVisible = 0,
        ApproximateNumberOfMessagesDelayed = 0\<rparr>
   \<and> fst (receiveMessage 5 (sqs adaApplied)) = []"
  by (simp add: adaApplied_def adaQueued_eq newWorld_def adaBody createAda_def adaRequest_def
       handler_defs queue_defs getQueueAttributes_def)

text \<open>
  C9. A leased message whose event type is none of CREATE, UPDATE and DELETE is
  acknowledged: \<open>processMessage\<close> writes a warning, calls no order-service function and
  no cache invalidation (database, cache and the list of calls are as before), and
  \<open>deleteMessage\<close> succeeds, taking one message with that receipt handle out of the
  processing queue and adding its id to \<open>processedMessages\<close>; no retry is scheduled.
\<close>

theorem unknown_type_acknowledged:
  assumes "event_type (Body m) \<noteq> ''CREATE''"
      and "event_type (Body m) \<noteq> ''UPDATE''"
      and "event_type (Body m) \<noteq> ''DELETE''"
      and "list_ex (\<lambda>x. ReceiptHandle x = ReceiptHandle m) (processingQueue (sqs w))"
  shows "processMessage m newId now w =
           (None, w\<lparr>sqs := snd (deleteMessage (ReceiptHandle m) (sqs w)),
                    console := console w @ [''Unknown event type'']\<rparr>)
       \<and> fst (deleteMessage (ReceiptHandle m) (sqs w)) = None
       \<and> (\<exists>x \<in> set (processingQueue (sqs w)). ReceiptHandle x = ReceiptHandle m
             \<and> MessageId x \<in> processedMessages (snd (deleteMessage (ReceiptHandle m) (sqs w))))
       \<and> length (processingQueue (snd (deleteMessage (ReceiptHandle m) (sqs w)))) + 1
           = length (processingQueue (sqs w))
       \<and> timeouts (snd (deleteMessage (ReceiptHandle m) (sqs w))) = timeouts (sqs w)"
proof -
  from deleteMessage_found [OF assms(4)] obtain i where
    i: "findIndex (\<lambda>x. ReceiptHandle x = ReceiptHandle m) (processingQueue (sqs w)) = Some i"
    and d: "deleteMessage (ReceiptHandle m) (sqs w) =
              (None, (sqs w)\<lparr>processingQueue := splice1 i (processingQueue (sqs w)),
                 processedMessages :=
                   insert (MessageId (processingQueue (sqs w) ! i)) (processedMessages (sqs w))\<rparr>)"
    by blast
  from findIndex_Some [OF i] have r: "i < length (processingQueue (sqs w))"
    "ReceiptHandle (processingQueue (sqs w) ! i) = ReceiptHandle m" by simp_all
  have p: "processMessage m newId now w =
           (None, w\<lparr>sqs := snd (deleteMessage (ReceiptHandle m) (sqs w)),
                    console := console w @ [''Unknown event type'']\<rparr>)"
    using assms(1-3) d by (simp add: processMessage_def dispatch_def logError_def)
  have e: "\<exists>x \<in> set (processingQueue (sqs w)). ReceiptHandle x = ReceiptHandle m
             \<and> MessageId x \<in> processedMessages (snd (deleteMessage (ReceiptHandle m) (sqs w)))"
    using r d by (intro bexI [of _ "processingQueue (sqs w) ! i"]) simp_all
  have l: "length (processingQueue (snd (deleteMessage (ReceiptHandle m) (sqs w)))) + 1
           = length (processingQueue (sqs w))"
    using r(1) d by (simp add: splice1_def)
  from p e l d show ?thesis by simp
qed

theorem unknown_type_acknowledged_witness:
  "processMessage archiveMessage ''ord_1'' 2000 archiveLeased =
     (None,
      archiveLeased\<lparr>sqs := newOrderSQSService\<lparr>queue := [archiveMessage],
                                             processedMessages := {''msg_7''}\<rparr>,
                    console := [''Unknown event type'']\<rparr>)
   \<and> orders archiveLeased = [] \<and> calls archiveLeased = [] \<and> redis archiveLeased = []"
proof -
  have h: "list_ex (\<lambda>x. ReceiptHandle x = ReceiptHandle archiveMessage)
             (processingQueue (sqs archiveLeased))"
    by (simp add: archiveLeased_def newWorld_def newOrderSQSService_def)
  have d: "snd (deleteMessage (ReceiptHandle archiveMessage) (sqs archiveLeased)) =
             newOrderSQSService\<lparr>queue := [archiveMessage], processedMessages := {''msg_7''}\<rparr>"
    by (simp add: archiveLeased_def newWorld_def newOrderSQSService_def deleteMessage_def
          splice1_def Let_def)
  have c: "console archiveLeased = []" "orders archiveLeased = []" "calls archiveLeased = []"
    "redis archiveLeased = []"
    by (simp_all add: archiveLeased_def newWorld_def)
  have "processMessage archiveMessage ''ord_1'' 2000 archiveLeased =
          (None, archiveLeased\<lparr>sqs := snd (deleteMessage (ReceiptHandle archiveMessage) (sqs archiveLeased)),
                    console := console archiveLeased @ [''Unknown event type'']\<rparr>)"
    using unknown_type_acknowledged [of archiveMessage archiveLeased "''ord_1''" 2000] h
    by simp
  with d c show ?thesis by simp
qed

text \<open>
  C8. When the store mutation of a leased event has succeeded and a Redis call of the
  cache invalidation that follows throws, \<open>processMessage\<close> still returns normally:
  the database is as the store mutation left it, the invalidation was called once and
  not again, its failure is on the console, the message has been acknowledged with
  \<open>deleteMessage\<close> and no retry is scheduled.
\<close>

theorem cache_failure_still_acknowledges:
  assumes store: "storeMutation (Body m) newId w = Some (w1, scope)"
      and inflight: "list_ex (\<lambda>x. ReceiptHandle x = ReceiptHandle m) (processingQueue (sqs w))"
      and fails: "invalidationThrows scope w1"
  shows "fst (processMessage m newId now w) = None
       \<and> orders (snd (processMessage m newId now w)) = orders w1
       \<and> calls (snd (processMessage m newId now w)) = calls w1 @ [CacheInvalidate scope]
       \<and> console (snd (processMessage m newId now w))
           = console w1 @ [''Redis invalidateOrderCache error:'']
       \<and> sqs (snd (processMessage m newId now w)) = snd (deleteMessage (ReceiptHandle m) (sqs w))
       \<and> fst (deleteMessage (ReceiptHandle m) (sqs w)) = None
       \<and> timeouts (sqs (snd (processMessage m newId now w))) = timeouts (sqs w)"
proof -
  from deleteMessage_found [OF inflight] obtain i where
    d: "deleteMessage (ReceiptHandle m) (sqs w) =
              (None, (sqs w)\<lparr>processingQueue := splice1 i (processingQueue (sqs w)),
                 processedMessages :=
                   insert (MessageId (processingQueue (sqs w) ! i)) (processedMessages (sqs w))\<rparr>)"
    by blast
  have q: "sqs w1 = sqs w" by (rule storeMutation_sqs [OF store])
  have p: "processMessage m newId now w =
             (None, (invalidateOrderCache scope w1)
                      \<lparr>sqs := snd (deleteMessage (ReceiptHandle m) (sqs w))\<rparr>)"
    using storeMutation_dispatch [OF store] d q by (simp add: processMessage_def)
  from fails have c: "console (invalidateOrderCache scope w1)
      = console w1 @ [''Redis invalidateOrderCache error:'']"
    by (simp add: invalidate_console)
  from p c d show ?thesis by simp
qed

theorem cache_failure_still_acknowledges_witness:
  "fst (processMessage adaMessage ''ord_1'' 2000 adaLeasedRedisDown) = None
   \<and> map total_amount (orders (snd (processMessage adaMessage ''ord_1'' 2000 adaLeasedRedisDown))) = [20]
   \<and> calls (snd (processMessage adaMessage ''ord_1'' 2000 adaLeasedRedisDown))
       = [StoreCreate (CreateData adaRequest), CacheInvalidate (Some ''ord_1''), CacheInvalidate None]
   \<and> console (snd (processMessage adaMessage ''ord_1'' 2000 adaLeasedRedisDown))
       = [''Redis get error:'', ''Redis set error:'', ''Redis invalidateOrderCache error:'',
          ''Redis invalidateOrderCache error:'']
   \<and> processedMessages (sqs (snd (processMessage adaMessage ''ord_1'' 2000 adaLeasedRedisDown)))
       = {''msg_1''}
   \<and> processingQueue (sqs (snd (processMessage adaMessage ''ord_1'' 2000 adaLeasedRedisDown))) = []
   \<and> timeouts (sqs (snd (processMessage adaMessage ''ord_1'' 2000 adaLeasedRedisDown))) = []"
proof -
  have inflight:
    "list_ex (\<lambda>x. ReceiptHandle x = ReceiptHandle adaMessage) (processingQueue (sqs adaLeasedRedisDown))"
    by (simp add: adaLeasedRedisDown_eq)
  have fails: "invalidationThrows None adaStored"
    by (simp add: invalidationThrows_def adaStored_def)
  have d: "deleteMessage (ReceiptHandle adaMessage) (sqs adaLeasedRedisDown) =
             (None, \<lparr>queue = [adaMessage], processingQueue = [], processedMessages = {''msg_1''},
                deduplicationCache = [''create_order_1000_abc_1000'' \<mapsto> 1000], timeouts = []\<rparr>)"
    by (simp add: adaLeasedRedisDown_eq deleteMessage_def splice1_def Let_def)
  have s: "orders adaStored = [newOrder ''ord_1'' adaRequest]"
    "calls adaStored = [StoreCreate (CreateData adaRequest), CacheInvalidate (Some ''ord_1'')]"
    "console adaStored =
       [''Redis get error:'', ''Redis set error:'', ''Redis invalidateOrderCache error:'']"
    "timeouts (sqs adaLeasedRedisDown) = []"
    by (simp_all add: adaStored_def adaLeasedRedisDown_eq)
  have t: "total_amount (newOrder ''ord_1'' adaRequest) = 20"
    by (simp add: newOrder_def adaRequest_def calculateTotalAmount_def)
  from cache_failure_still_acknowledges [OF adaStored_store inflight fails, of 2000] d s t
  show ?thesis by simp
qed

section \<open>Deduplication\<close>

lemma sendMessage_duplicate:
  "isDuplicate s (deduplicationId event) ts \<Longrightarrow> sendMessage event messageId receiptHandle ts s = (messageId, s)"
  by (simp add: sendMessage_def)

lemma sendMessage_fst [simp]: "fst (sendMessage event messageId receiptHandle ts s) = messageId"
  by (simp add: sendMessage_def Let_def)

lemma sendMessages_all_suppressed:
  assumes "deduplicationCache s token = Some lastSeen" and "lastSeen \<noteq> 0"
      and "\<forall>r \<in> set reqs. deduplicationId (fst r) = token"
      and "withinWindow token reqs s"
  shows "sendMessages reqs s = (map (\<lambda>r. fst (snd r)) reqs, s)"
  using assms(3,4)
proof (induction reqs)
  case Nil
  then show ?case by simp
next
  case (Cons r reqs)
  obtain event messageId receiptHandle ts where r: "r = (event, messageId, receiptHandle, ts)"
    by (cases r) auto
  from Cons.prems r have tok: "deduplicationId event = token" by simp
  from Cons.prems(2) r assms(1) have "ts - lastSeen < deduplicationWindowMs" by simp
  with assms(1,2) tok have dup: "isDuplicate s (deduplicationId event) ts"
    by (simp add: isDuplicate_def)
  then have send: "sendMessage event messageId receiptHandle ts s = (messageId, s)"
    by (rule sendMessage_duplicate)
  with Cons.prems r have "withinWindow token reqs s" by simp
  moreover from Cons.prems(1) have "\<forall>r \<in> set reqs. deduplicationId (fst r) = token" by simp
  ultimately have "sendMessages reqs s = (map (\<lambda>r. fst (snd r)) reqs, s)"
    by (rule Cons.IH[rotated])
  with send r show ?case by simp
qed

lemma threeEnqueues_hyps:
  "\<forall>r \<in> set threeEnqueues. deduplicationId (fst r) = ''update_o404_completed_1000''"
  "\<forall>r \<in> set threeEnqueues. snd (snd (snd r)) \<noteq> 0"
  "withinWindow ''update_o404_completed_1000'' threeEnqueues newOrderSQSService"
  by (simp_all add: threeEnqueues_def updateMissing_def sendMessage_def isDuplicate_def
        newOrderSQSService_def deduplicationWindowMs_def Let_def)

text \<open>
  C7. A sequence of enqueues that all carry the same deduplication id, each within the
  deduplication window of the id's last recording, creates at most one message: every
  enqueue after the first is suppressed, so the sequence leaves the queue as its first
  enqueue alone does, and each call, suppressed or not, returns the \<open>MessageId\<close> it
  generated. The clock is taken not to read 0, the one recorded time that \<open>isDuplicate\<close>
  treats as no recording.
\<close>

theorem duplicates_within_window_suppressed:
  assumes same: "\<forall>r \<in> set reqs. deduplicationId (fst r) = token"
      and clock: "\<forall>r \<in> set reqs. snd (snd (snd r)) \<noteq> 0"
      and window: "withinWindow token reqs s"
  shows "fst (sendMessages reqs s) = map (\<lambda>r. fst (snd r)) reqs
       \<and> snd (sendMessages reqs s) =
           (case reqs of
              [] \<Rightarrow> s
            | (event, messageId, receiptHandle, ts) # rest \<Rightarrow>
                snd (sendMessage event messageId receiptHandle ts s))
       \<and> length (queue (snd (sendMessages reqs s))) \<le> length (queue s) + 1"
proof (cases reqs)
  case Nil
  then show ?thesis by simp
next
  case (Cons r rest)
  obtain event messageId receiptHandle ts where r: "r = (event, messageId, receiptHandle, ts)"
    by (cases r) auto
  define s1 where "s1 = snd (sendMessage event messageId receiptHandle ts s)"
  from same Cons r have tok: "deduplicationId event = token" by simp
  from clock Cons r have ts: "ts \<noteq> 0" by simp
  from same Cons have rest_tok: "\<forall>r \<in> set rest. deduplicationId (fst r) = token" by simp
  from window Cons r have rest_win: "withinWindow token rest s1" by (simp add: s1_def)
  have "\<exists>lastSeen. deduplicationCache s1 token = Some lastSeen \<and> lastSeen \<noteq> 0"
  proof (cases "isDuplicate s (deduplicationId event) ts")
    case True
    then have "s1 = s" by (simp add: s1_def sendMessage_def)
    with True tok show ?thesis
      by (auto simp: isDuplicate_def split: option.splits if_splits)
  next
    case False
    with tok ts show ?thesis by (simp add: s1_def sendMessage_def Let_def)
  qed
  then obtain lastSeen where "deduplicationCache s1 token = Some lastSeen" "lastSeen \<noteq> 0"
    by blast
  from sendMessages_all_suppressed [OF this rest_tok rest_win]
  have rest_eq: "sendMessages rest s1 = (map (\<lambda>r. fst (snd r)) rest, s1)" .
  have len: "length (queue s1) \<le> length (queue s) + 1"
    by (simp add: s1_def sendMessage_def Let_def)
  have sm: "sendMessage event messageId receiptHandle ts s = (messageId, s1)"
    by (simp add: s1_def prod_eq_iff)
  from rest_eq len sm Cons r show ?thesis by simp
qed

theorem duplicates_within_window_suppressed_witness:
  "fst (sendMessages threeEnqueues newOrderSQSService) = [''msg_1'', ''msg_2'', ''msg_3'']
   \<and> queue (snd (sendMessages threeEnqueues newOrderSQSService)) = [updateMessage]"
proof -
  note t = duplicates_within_window_suppressed [OF threeEnqueues_hyps]
  from t have "fst (sendMessages threeEnqueues newOrderSQSService) = map (\<lambda>r. fst (snd r)) threeEnqueues"
    by (rule conjunct1)
  moreover from t have "snd (sendMessages threeEnqueues newOrderSQSService) = enqueued"
    by (simp add: threeEnqueues_def enqueued_def)
  ultimately show ?thesis by (simp add: threeEnqueues_def enqueued_eq)
qed

section \<open>What the queue holds\<close>

lemma set_splice1: "set (splice1 i xs) \<subseteq> set xs"
  by (auto simp: splice1_def dest: in_set_takeD in_set_dropD)

lemma receiveMessage_subset: "set (fst (receiveMessage n s)) \<subseteq> set (queue s)"
  by (auto simp: receiveMessage_def Let_def dest: in_set_takeD)

lemma receiveMessage_state:
  "snd (receiveMessage n s) = s\<lparr>processingQueue := processingQueue s @ fst (receiveMessage n s)\<rparr>"
  by (simp add: receiveMessage_def Let_def)

lemma returnMessage_found:
  assumes "findIndex (\<lambda>x. ReceiptHandle x = h) (processingQueue s) = Some i"
  shows "returnMessage h now s =
           (None, s\<lparr>processingQueue := splice1 i (processingQueue s),
                    timeouts := timeouts s @ [(now + 1000, processingQueue s ! i)]\<rparr>)"
  using assms
  by (simp add: returnMessage_def Let_def getRetryCount_def maxRetries_def retryDelay_def
        retryDelays_def)

lemma heldMessages_step:
  assumes "x \<in> heldMessages (step operation s)"
  shows "x \<in> heldMessages s \<or> MessageId x \<in> sentId operation"
proof (cases operation)
  case (Send event messageId receiptHandle ts)
  with assms show ?thesis
    by (auto simp: heldMessages_def sendMessage_def Let_def split: if_splits)
next
  case (Receive n)
  with assms receiveMessage_subset [of n s] show ?thesis
    by (auto simp: heldMessages_def receiveMessage_state)
next
  case (Delete h)
  show ?thesis
  proof (cases "findIndex (\<lambda>x. ReceiptHandle x = h) (processingQueue s)")
    case None
    with assms Delete show ?thesis by (simp add: deleteMessage_def)
  next
    case (Some i)
    with assms Delete set_splice1 [of i "processingQueue s"] show ?thesis
      by (auto simp: heldMessages_def deleteMessage_def Let_def)
  qed
next
  case (Return h now)
  show ?thesis
  proof (cases "findIndex (\<lambda>x. ReceiptHandle x = h) (processingQueue s)")
    case None
    with assms Return show ?thesis by (simp add: returnMessage_def)
  next
    case (Some i)
    from findIndex_Some [OF Some] have "processingQueue s ! i \<in> set (processingQueue s)"
      by simp
    with assms Return Some set_splice1 [of i "processingQueue s"] show ?thesis
      by (auto simp: heldMessages_def returnMessage_found)
  qed
next
  case (Timers now)
  with assms show ?thesis
    by (auto simp: heldMessages_def runTimers_def Let_def)
next
  case (Cleanup now)
  with assms show ?thesis by (simp add: heldMessages_def cleanupTick_def)
next
  case Purge
  with assms show ?thesis by (simp add: heldMessages_def purgeQueue_def)
qed

lemma heldMessages_run:
  "x \<in> heldMessages (run ops s) \<Longrightarrow> x \<in> heldMessages s \<or> MessageId x \<in> sentIds ops"
proof (induction ops arbitrary: s)
  case Nil
  then show ?case by simp
next
  case (Cons operation ops)
  from Cons.IH [of "step operation s"] Cons.prems
  have "x \<in> heldMessages (step operation s) \<or> MessageId x \<in> sentIds ops" by simp
  with heldMessages_step [of x operation s] show ?case
    by (auto simp: sentIds_def)
qed

lemma leased_held: "x \<in> set (leased operation s) \<Longrightarrow> x \<in> heldMessages s"
  using receiveMessage_subset by (cases operation) (auto simp: heldMessages_def)

lemma leases_held:
  "x \<in> set (leases ops s) \<Longrightarrow> x \<in> heldMessages s \<or> MessageId x \<in> sentIds ops"
proof (induction ops arbitrary: s)
  case Nil
  then show ?case by simp
next
  case (Cons operation ops)
  from Cons.prems consider "x \<in> set (leased operation s)"
    | "x \<in> set (leases ops (step operation s))" by auto
  then show ?case
  proof cases
    case 1
    then show ?thesis by (simp add: leased_held)
  next
    case 2
    from Cons.IH [OF 2] heldMessages_step [of x operation s] show ?thesis
      by (auto simp: sentIds_def)
  qed
qed

text \<open>
  Ids go on identifying records as long as each \<open>sendMessage\<close> generates an id that no
  held message has.
\<close>

lemma idsIdentify_step:
  assumes "idsIdentify s" and "sentId operation \<inter> heldIds s = {}"
  shows "idsIdentify (step operation s)"
proof -
  have "x = y"
    if x: "x \<in> heldMessages (step operation s)" and y: "y \<in> heldMessages (step operation s)"
      and eq: "MessageId x = MessageId y" for x y
  proof (cases operation)
    case (Send event messageId receiptHandle ts)
    define m where
      "m = \<lparr>MessageId = messageId, ReceiptHandle = receiptHandle,
            Body = event\<lparr>event_id := messageId, timestamp := ts\<rparr>,
            Attributes = \<lparr>SentTimestamp = ts, GroupId = groupId event,
                          DeduplicationId = deduplicationId event\<rparr>\<rparr>"
    have held: "heldMessages (step operation s) \<subseteq> insert m (heldMessages s)"
      using Send by (auto simp: heldMessages_def sendMessage_def Let_def m_def)
    from assms(2) Send have "MessageId m \<notin> heldIds s" by (simp add: m_def)
    then have "\<forall>z \<in> heldMessages s. MessageId z \<noteq> MessageId m"
      unfolding heldIds_def by (metis imageI)
    with held x y eq assms(1) show ?thesis
      unfolding idsIdentify_def by (metis insertE subsetD)
  next
    case (Receive n)
    with x y heldMessages_step [of _ operation s] have "x \<in> heldMessages s" "y \<in> heldMessages s"
      by auto
    with eq assms(1) show ?thesis by (auto simp: idsIdentify_def)
  next
    case (Delete h)
    with x y heldMessages_step [of _ operation s] have "x \<in> heldMessages s" "y \<in> heldMessages s"
      by auto
    with eq assms(1) show ?thesis by (auto simp: idsIdentify_def)
  next
    case (Return h now)
    with x y heldMessages_step [of _ operation s] have "x \<in> heldMessages s" "y \<in> heldMessages s"
      by auto
    with eq assms(1) show ?thesis by (auto simp: idsIdentify_def)
  next
    case (Timers now)
    with x y heldMessages_step [of _ operation s] have "x \<in> heldMessages s" "y \<in> heldMessages s"
      by auto
    with eq assms(1) show ?thesis by (auto simp: idsIdentify_def)
  next
    case (Cleanup now)
    with x y heldMessages_step [of _ operation s] have "x \<in> heldMessages s" "y \<in> heldMessages s"
      by auto
    with eq assms(1) show ?thesis by (auto simp: idsIdentify_def)
  next
    case Purge
    with x y heldMessages_step [of _ operation s] have "x \<in> heldMessages s" "y \<in> heldMessages s"
      by auto
    with eq assms(1) show ?thesis by (auto simp: idsIdentify_def)
  qed
  then show ?thesis by (auto simp: idsIdentify_def)
qed




section \<open>Retry\<close>

text \<open>
  C4, as the code has it. \<open>returnMessage\<close> with the receipt handle of a message in
  flight that has attempts remaining takes that message out of the processing queue
  (one entry fewer, the entry at the index found), does not mark it done, and registers
  a timer that pushes the same record onto \<open>queue\<close> after the delay the retry schedule
  gives for its retry count; once the timer has run the record is in \<open>queue\<close>. The
  record keeps the \<open>ReceiptHandle\<close> that \<open>sendMessage\<close> gave it: whenever a message
  with that id is leased again, it carries the receipt handle of the earlier lease.
  (Ids identify records, and no later \<open>sendMessage\<close> generates the id again.)
\<close>

theorem returned_message_keeps_receipt_handle:
  assumes found: "findIndex (\<lambda>x. ReceiptHandle x = h) (processingQueue s) = Some i"
      and remaining: "getRetryCount (MessageId (processingQueue s ! i)) < maxRetries"
      and ids: "idsIdentify s"
  shows "processingQueue s ! i \<in> set (processingQueue s)
       \<and> ReceiptHandle (processingQueue s ! i) = h
       \<and> fst (returnMessage h now s) = None
       \<and> processingQueue (snd (returnMessage h now s)) = splice1 i (processingQueue s)
       \<and> length (processingQueue (snd (returnMessage h now s))) + 1 = length (processingQueue s)
       \<and> processedMessages (snd (returnMessage h now s)) = processedMessages s
       \<and> timeouts (snd (returnMessage h now s))
           = timeouts s
             @ [(now + retryDelay (getRetryCount (MessageId (processingQueue s ! i))),
                 processingQueue s ! i)]
       \<and> (\<forall>t. now + retryDelay (getRetryCount (MessageId (processingQueue s ! i))) \<le> t \<longrightarrow>
             processingQueue s ! i \<in> set (queue (runTimers t (snd (returnMessage h now s)))))
       \<and> (\<forall>ops. MessageId (processingQueue s ! i) \<notin> sentIds ops \<longrightarrow>
             (\<forall>x \<in> set (leases ops (snd (returnMessage h now s))).
                MessageId x = MessageId (processingQueue s ! i) \<longrightarrow> ReceiptHandle x = h))"
proof -
  define m where "m = processingQueue s ! i"
  define due where "due = now + retryDelay (getRetryCount (MessageId m))"
  define s' where "s' = snd (returnMessage h now s)"
  from findIndex_Some [OF found] have i: "i < length (processingQueue s)"
    and m_in: "m \<in> set (processingQueue s)" and m_h: "ReceiptHandle m = h"
    by (simp_all add: m_def)
  have r: "returnMessage h now s =
             (None, s\<lparr>processingQueue := splice1 i (processingQueue s),
                      timeouts := timeouts s @ [(due, m)]\<rparr>)"
    using found remaining by (simp add: returnMessage_def Let_def m_def due_def)
  have len: "length (processingQueue s') + 1 = length (processingQueue s)"
    using r i by (simp add: s'_def splice1_def)
  have timer: "m \<in> set (queue (runTimers t s'))" if "due \<le> t" for t
    using that r by (simp add: s'_def runTimers_def Let_def)
  have held: "heldMessages s' \<subseteq> heldMessages s"
    using r m_in set_splice1 [of i "processingQueue s"]
    by (auto simp: s'_def heldMessages_def)
  have again: "ReceiptHandle x = h"
    if "MessageId m \<notin> sentIds ops" "x \<in> set (leases ops s')" "MessageId x = MessageId m" for ops x
  proof -
    from leases_held [OF that(2)] that(1,3) have "x \<in> heldMessages s'" by auto
    with held have "x \<in> heldMessages s" by auto
    moreover from m_in have "m \<in> heldMessages s" by (simp add: heldMessages_def)
    ultimately have "x = m" using ids that(3) by (auto simp: idsIdentify_def)
    with m_h show ?thesis by simp
  qed
  from m_in m_h r len timer again show ?thesis
    unfolding s'_def m_def due_def by auto
qed

theorem returned_message_keeps_receipt_handle_witness:
  "processingQueue (snd (receiveMessage 5 enqueued)) = [updateMessage]
   \<and> processingQueue (snd (returnMessage ''receipt_1'' 2000 (snd (receiveMessage 5 enqueued)))) = []
   \<and> timeouts (snd (returnMessage ''receipt_1'' 2000 (snd (receiveMessage 5 enqueued))))
       = [(3000, updateMessage)]
   \<and> map ReceiptHandle
       (leases [Timers 3000, Receive 1]
          (snd (returnMessage ''receipt_1'' 2000 (snd (receiveMessage 5 enqueued)))))
     = [''receipt_1'']"
proof -
  have lease1: "snd (receiveMessage 5 enqueued) =
      \<lparr>queue = [updateMessage], processingQueue = [updateMessage], processedMessages = {},
       deduplicationCache = [''update_o404_completed_1000'' \<mapsto> 1000], timeouts = []\<rparr>"
    by (simp add: enqueued_eq receiveMessage_def available_def Let_def)
  have found: "findIndex (\<lambda>x. ReceiptHandle x = ''receipt_1'')
                 (processingQueue (snd (receiveMessage 5 enqueued))) = Some 0"
    by (simp add: lease1)
  have remaining:
    "getRetryCount (MessageId (processingQueue (snd (receiveMessage 5 enqueued)) ! 0)) < maxRetries"
    by (simp add: getRetryCount_def maxRetries_def)
  have ids: "idsIdentify (snd (receiveMessage 5 enqueued))"
    by (simp add: lease1 idsIdentify_def heldMessages_def)
  note t = returned_message_keeps_receipt_handle [OF found remaining ids, of 2000]
  have m: "processingQueue (snd (receiveMessage 5 enqueued)) ! 0 = updateMessage"
    by (simp add: lease1)
  have d: "retryDelay (getRetryCount ''msg_1'') = 1000"
    by (simp add: retryDelay_def getRetryCount_def retryDelays_def)
  from t have p: "processingQueue (snd (returnMessage ''receipt_1'' 2000 (snd (receiveMessage 5 enqueued))))
      = splice1 0 (processingQueue (snd (receiveMessage 5 enqueued)))"
    by blast
  from t have ts: "timeouts (snd (returnMessage ''receipt_1'' 2000 (snd (receiveMessage 5 enqueued))))
      = timeouts (snd (receiveMessage 5 enqueued))
        @ [(2000 + retryDelay (getRetryCount (MessageId (processingQueue (snd (receiveMessage 5 enqueued)) ! 0))),
            processingQueue (snd (receiveMessage 5 enqueued)) ! 0)]"
    by blast
  have p': "processingQueue (snd (returnMessage ''receipt_1'' 2000 (snd (receiveMessage 5 enqueued)))) = []"
    using p by (simp add: lease1 splice1_def)
  have ts': "timeouts (snd (returnMessage ''receipt_1'' 2000 (snd (receiveMessage 5 enqueued))))
       = [(3000, updateMessage)]"
    using ts m d by (simp add: lease1)
  have ret: "snd (returnMessage ''receipt_1'' 2000 (snd (receiveMessage 5 enqueued))) =
      \<lparr>queue = [updateMessage], processingQueue = [], processedMessages = {},
       deduplicationCache = [''update_o404_completed_1000'' \<mapsto> 1000],
       timeouts = [(3000, updateMessage)]\<rparr>"
    unfolding lease1
    by (simp add: returnMessage_def splice1_def getRetryCount_def maxRetries_def retryDelay_def
          retryDelays_def Let_def)
  have ls: "leases [Timers 3000, Receive 1]
          (snd (returnMessage ''receipt_1'' 2000 (snd (receiveMessage 5 enqueued)))) = [updateMessage]"
    unfolding ret by (simp add: runTimers_def receiveMessage_def available_def Let_def)
  from p' ts' ls show ?thesis by (simp add: lease1)
qed

text \<open>
  C4 as stated says the second lease carries a fresh receipt handle. The first lease of
  \<open>updateMessage\<close> and its lease after a return and the one-second delay carry the same
  handle.
\<close>

theorem second_lease_same_receipt_handle:
  "map ReceiptHandle (fst (receiveMessage 1 enqueued)) = [''receipt_1'']
   \<and> map ReceiptHandle
       (fst (receiveMessage 1
          (runTimers 3000 (snd (returnMessage ''receipt_1'' 2000 (snd (receiveMessage 1 enqueued)))))))
     = [''receipt_1'']"
  by (simp add: enqueued_eq queue_defs)

section \<open>Order of leases\<close>

lemma queuedInOrder_split:
  "queuedInOrder a b q \<longleftrightarrow>
     (\<exists>xs ys. q = xs @ ys \<and> b \<notin> MessageId ` set xs \<and> a \<notin> MessageId ` set ys)"
proof
  assume "queuedInOrder a b q"
  then have "a \<notin> MessageId ` set (dropWhile (\<lambda>x. MessageId x \<noteq> b) q)"
    by (simp add: queuedInOrder_def)
  moreover have "b \<notin> MessageId ` set (takeWhile (\<lambda>x. MessageId x \<noteq> b) q)"
    by (auto dest: set_takeWhileD)
  moreover have "q = takeWhile (\<lambda>x. MessageId x \<noteq> b) q @ dropWhile (\<lambda>x. MessageId x \<noteq> b) q"
    by simp
  ultimately show "\<exists>xs ys. q = xs @ ys \<and> b \<notin> MessageId ` set xs \<and> a \<notin> MessageId ` set ys"
    by blast
next
  assume "\<exists>xs ys. q = xs @ ys \<and> b \<notin> MessageId ` set xs \<and> a \<notin> MessageId ` set ys"
  then obtain xs ys where q: "q = xs @ ys" and b: "b \<notin> MessageId ` set xs"
    and a: "a \<notin> MessageId ` set ys" by blast
  from b have "dropWhile (\<lambda>x. MessageId x \<noteq> b) (xs @ ys) = dropWhile (\<lambda>x. MessageId x \<noteq> b) ys"
    by (intro dropWhile_append2) auto
  with a q show "queuedInOrder a b q"
    by (auto simp: queuedInOrder_def dest: set_dropWhileD)
qed

lemma queuedInOrder_append:
  assumes "queuedInOrder a b q" and "a \<notin> MessageId ` set zs"
  shows "queuedInOrder a b (q @ zs)"
proof -
  from assms(1) obtain xs ys where "q = xs @ ys" "b \<notin> MessageId ` set xs" "a \<notin> MessageId ` set ys"
    unfolding queuedInOrder_split by blast
  with assms(2) have "q @ zs = xs @ (ys @ zs) \<and> b \<notin> MessageId ` set xs
      \<and> a \<notin> MessageId ` set (ys @ zs)"
    by auto
  then show ?thesis unfolding queuedInOrder_split by blast
qed

lemma receiveMessage_fst:
  "fst (receiveMessage n s) = take n (filter (available s) (queue s))"
  by (simp add: receiveMessage_def Let_def)

text \<open>The batch of one \<open>receiveMessage\<close>, when the queue is in order.\<close>

lemma batch_in_order:
  assumes "queuedInOrder a b q" and "a \<in> MessageId ` set (take n (filter P q))"
  shows "b \<notin> MessageId ` set (takeWhile (\<lambda>x. MessageId x \<noteq> a) (take n (filter P q)))"
proof -
  from assms(1) obtain xs ys where q: "q = xs @ ys" and b: "b \<notin> MessageId ` set xs"
    and a: "a \<notin> MessageId ` set ys"
    unfolding queuedInOrder_split by blast
  define head_part where "head_part = take n (filter P xs)"
  define tail_part where "tail_part = take (n - length (filter P xs)) (filter P ys)"
  have out: "take n (filter P q) = head_part @ tail_part"
    by (simp add: q head_part_def tail_part_def)
  have "set tail_part \<subseteq> set ys" by (auto simp: tail_part_def dest: in_set_takeD)
  with a have "a \<notin> MessageId ` set tail_part" by auto
  with assms(2) out obtain x where x: "x \<in> set head_part" "MessageId x = a" by auto
  then have "takeWhile (\<lambda>x. MessageId x \<noteq> a) (head_part @ tail_part)
               = takeWhile (\<lambda>x. MessageId x \<noteq> a) head_part"
    by (intro takeWhile_append1 [of x]) auto
  moreover have "set (takeWhile (\<lambda>x. MessageId x \<noteq> a) head_part) \<subseteq> set xs"
  proof -
    have "set (takeWhile (\<lambda>x. MessageId x \<noteq> a) head_part) \<subseteq> set head_part"
      using set_takeWhileD by fastforce
    moreover have "set head_part \<subseteq> set xs"
      by (auto simp: head_part_def dest: in_set_takeD)
    ultimately show ?thesis by blast
  qed
  ultimately show ?thesis using b out by auto
qed

lemma batch_without_first:
  assumes "queuedInOrder a b q" and "a \<notin> MessageId ` set (take n (filter P q))"
      and "x \<in> set q" and "MessageId x = a" and "P x"
  shows "b \<notin> MessageId ` set (take n (filter P q))"
proof -
  from assms(1) obtain xs ys where q: "q = xs @ ys" and b: "b \<notin> MessageId ` set xs"
    and a: "a \<notin> MessageId ` set ys"
    unfolding queuedInOrder_split by blast
  from assms(3,4) a q have "x \<in> set xs" by auto
  with assms(5) have in_front: "x \<in> set (filter P xs)" by simp
  have "n < length (filter P xs)"
  proof (rule ccontr)
    assume "\<not> n < length (filter P xs)"
    then have "take n (filter P q) = filter P xs @ take (n - length (filter P xs)) (filter P ys)"
      by (simp add: q)
    with in_front assms(2,4) show False by auto
  qed
  then have "take n (filter P q) = take n (filter P xs)" by (simp add: q)
  moreover have "set (take n (filter P xs)) \<subseteq> set xs" by (auto dest: in_set_takeD)
  ultimately show ?thesis using b by auto
qed

lemma available_unleased:
  "unleased a s \<Longrightarrow> MessageId x = a \<Longrightarrow> available s x"
  by (auto simp: unleased_def available_def list_ex_iff image_iff)

lemma leased_Receive: "leased operation s \<noteq> [] \<Longrightarrow> \<exists>n. operation = Receive n"
  by (cases operation) auto

lemma queue_step_unchanged:
  "queue (snd (receiveMessage n s)) = queue s"
  "queue (snd (deleteMessage h s)) = queue s"
  "queue (snd (returnMessage h now s)) = queue s"
  "queue (cleanupTick now s) = queue s"
  by (auto simp: receiveMessage_def deleteMessage_def returnMessage_def cleanupTick_def Let_def
        split: option.splits)

lemma unleased_step:
  assumes "unleased a s" and "a \<notin> MessageId ` set (leased operation s)"
  shows "unleased a (step operation s)"
proof (cases operation)
  case (Send event messageId receiptHandle ts)
  with assms(1) show ?thesis
    by (auto simp: unleased_def sendMessage_def Let_def)
next
  case (Receive n)
  with assms show ?thesis
    by (auto simp: unleased_def receiveMessage_state)
next
  case (Delete h)
  show ?thesis
  proof (cases "findIndex (\<lambda>x. ReceiptHandle x = h) (processingQueue s)")
    case None
    with assms(1) Delete show ?thesis by (simp add: deleteMessage_def)
  next
    case (Some i)
    from findIndex_Some [OF Some] have "processingQueue s ! i \<in> set (processingQueue s)"
      by simp
    with assms(1) Delete Some set_splice1 [of i "processingQueue s"] show ?thesis
      by (auto simp: unleased_def deleteMessage_def Let_def)
  qed
next
  case (Return h now)
  show ?thesis
  proof (cases "findIndex (\<lambda>x. ReceiptHandle x = h) (processingQueue s)")
    case None
    with assms(1) Return show ?thesis by (simp add: returnMessage_def)
  next
    case (Some i)
    from findIndex_Some [OF Some] have "processingQueue s ! i \<in> set (processingQueue s)"
      by simp
    with assms(1) Return Some set_splice1 [of i "processingQueue s"] show ?thesis
      by (auto simp: unleased_def returnMessage_found)
  qed
next
  case (Timers now)
  with assms(1) show ?thesis
    by (auto simp: unleased_def runTimers_def Let_def)
next
  case (Cleanup now)
  with assms(1) show ?thesis by (simp add: unleased_def cleanupTick_def)
next
  case Purge
  with assms(1) show ?thesis by (simp add: unleased_def purgeQueue_def)
qed

lemma unleased_run:
  "unleased a s \<Longrightarrow> a \<notin> MessageId ` set (leases ops s) \<Longrightarrow> unleased a (run ops s)"
proof (induction ops arbitrary: s)
  case Nil
  then show ?case by simp
next
  case (Cons operation ops)
  from Cons.prems have "unleased a (step operation s)"
    by (intro unleased_step) auto
  moreover from Cons.prems have "a \<notin> MessageId ` set (leases ops (step operation s))"
    by auto
  ultimately show ?case using Cons.IH by simp
qed

lemma queuedInOrder_step:
  assumes "unleased a s" and "queuedInOrder a b (queue s)" and "a \<notin> sentId operation"
  shows "queuedInOrder a b (queue (step operation s))"
proof (cases operation)
  case (Send event messageId receiptHandle ts)
  with assms(3) have "messageId \<noteq> a" by simp
  then have "queuedInOrder a b (queue s @ [m])" if "MessageId m = messageId" for m
    using that assms(2) by (intro queuedInOrder_append) auto
  with assms(2) Send show ?thesis
    by (auto simp: sendMessage_def Let_def)
next
  case (Timers now)
  have "a \<notin> MessageId ` set (map snd (sort_key fst (filter (\<lambda>t. fst t \<le> now) (timeouts s))))"
    using assms(1) by (auto simp: unleased_def)
  with assms(2) have "queuedInOrder a b
      (queue s @ map snd (sort_key fst (filter (\<lambda>t. fst t \<le> now) (timeouts s))))"
    by (rule queuedInOrder_append)
  with Timers show ?thesis by (simp add: runTimers_def Let_def)
next
  case Purge
  then show ?thesis by (simp add: purgeQueue_def queuedInOrder_def)
qed (use assms(2) in \<open>simp_all add: queue_step_unchanged\<close>)

lemma leases_append: "leases (xs @ ys) s = leases xs s @ leases ys (run xs s)"
  by (induction xs arbitrary: s) auto

lemma sentIds_simps [simp]:
  "sentIds [] = {}" "sentIds (x # xs) = sentId x \<union> sentIds xs"
  "sentIds (xs @ ys) = sentIds xs \<union> sentIds ys"
  by (auto simp: sentIds_def)

lemma never_held_never_leased:
  assumes "a \<notin> heldIds s" and "a \<notin> sentIds ops"
  shows "a \<notin> MessageId ` set (leases ops s)" and "a \<notin> heldIds (run ops s)"
  using assms leases_held [of _ ops s] heldMessages_run [of _ ops s]
  by (auto simp: heldIds_def)

lemma leases_in_order:
  assumes "unleased a s" and "queuedInOrder a b (queue s)" and "a \<notin> sentIds ops"
  shows "leasedInOrder a b (leases ops s)"
  using assms
proof (induction ops arbitrary: s)
  case Nil
  then show ?case by (simp add: leasedInOrder_def)
next
  case (Cons operation ops)
  define batch where "batch = leased operation s"
  define rest where "rest = leases ops (step operation s)"
  have all: "leases (operation # ops) s = batch @ rest"
    by (simp add: batch_def rest_def)
  from Cons.prems(3) have fresh: "a \<notin> sentId operation" "a \<notin> sentIds ops" by simp_all
  show ?case
  proof (cases "a \<in> MessageId ` set batch")
    case True
    then have "batch \<noteq> []" by auto
    then obtain n where n: "operation = Receive n"
      unfolding batch_def by (auto dest: leased_Receive)
    then have b: "batch = take n (filter (available s) (queue s))"
      by (simp add: batch_def receiveMessage_fst)
    from batch_in_order [OF Cons.prems(2)] True b
    have "b \<notin> MessageId ` set (takeWhile (\<lambda>x. MessageId x \<noteq> a) batch)" by simp
    moreover from True obtain x where "x \<in> set batch" "\<not> MessageId x \<noteq> a" by auto
    then have "takeWhile (\<lambda>x. MessageId x \<noteq> a) (batch @ rest)
                 = takeWhile (\<lambda>x. MessageId x \<noteq> a) batch"
      by (rule takeWhile_append1)
    ultimately show ?thesis unfolding all leasedInOrder_def by simp
  next
    case False
    then have u: "unleased a (step operation s)"
      using Cons.prems(1) unfolding batch_def by (intro unleased_step)
    have q: "queuedInOrder a b (queue (step operation s))"
      using Cons.prems(1,2) fresh(1) by (rule queuedInOrder_step)
    from Cons.IH [OF u q fresh(2)] have ih: "leasedInOrder a b rest" by (simp add: rest_def)
    from False have tw: "takeWhile (\<lambda>x. MessageId x \<noteq> a) (batch @ rest)
                 = batch @ takeWhile (\<lambda>x. MessageId x \<noteq> a) rest"
      by (intro takeWhile_append2) auto
    have "b \<notin> MessageId ` set batch" if later: "a \<in> MessageId ` set rest"
    proof (cases "batch = []")
      case True
      then show ?thesis by simp
    next
      case nonempty: False
      then obtain n where n: "operation = Receive n"
        unfolding batch_def by (auto dest: leased_Receive)
      then have b: "batch = take n (filter (available s) (queue s))"
        by (simp add: batch_def receiveMessage_fst)
      from later obtain x where x: "x \<in> set rest" "MessageId x = a" by auto
      from leases_held [of x ops "step operation s"] x fresh(2)
      have "x \<in> heldMessages (step operation s)" by (auto simp: rest_def)
      from heldMessages_step [OF this] n have "x \<in> heldMessages s" by simp
      with Cons.prems(1) x(2) have in_queue: "x \<in> set (queue s)"
        by (auto simp: heldMessages_def unleased_def)
      from available_unleased [OF Cons.prems(1) x(2)] have av: "available s x" .
      from False b have "a \<notin> MessageId ` set (take n (filter (available s) (queue s)))"
        by simp
      from batch_without_first [OF Cons.prems(2) this in_queue x(2) av] b
      show ?thesis by simp
    qed
    with ih tw False show ?thesis
      unfolding all leasedInOrder_def by auto
  qed
qed

text \<open>
  C5. Two events are enqueued one after the other, with any operations before, between
  and after (leases, acknowledgements, returns, timers, cleanup, purge, other
  enqueues), and the ids generated for them are new. Then in the sequence of all leases
  of the run, if the first event is leased at all, the second is not leased before the
  first lease of the first. \<open>receiveMessage\<close> does not look at \<open>GroupId\<close>: the order
  holds for every pair of events, so in particular for two events of one group. A retry
  adds later leases of an event and does not change which first lease comes first.
\<close>

theorem leases_follow_enqueue_order:
  assumes ops: "ops = before @ Send event1 a handle1 t1 # between @ Send event2 b handle2 t2 # after"
      and distinct: "a \<noteq> b"
      and new_a: "a \<notin> heldIds s" "a \<notin> processedMessages s"
      and new_b: "b \<notin> heldIds s"
      and once_b: "b \<notin> sentIds (before @ between)"
      and once_a: "a \<notin> sentIds after"
  shows "leasedInOrder a b (leases ops s)"
proof -
  define first where "first = before @ Send event1 a handle1 t1 # between"
  define second where "second = Send event2 b handle2 t2 # after"
  define s1 where "s1 = run first s"
  have "ops = first @ second" by (simp add: ops first_def second_def)
  then have split: "leases ops s = leases first s @ leases second s1"
    by (simp only: leases_append s1_def)
  from once_b distinct have b_first: "b \<notin> sentIds first" by (auto simp: first_def)
  from once_a distinct have a_second: "a \<notin> sentIds second" by (auto simp: second_def)
  from never_held_never_leased [OF new_b b_first]
  have no_b: "b \<notin> MessageId ` set (leases first s)" and b_new: "b \<notin> heldIds s1"
    by (simp_all add: s1_def)
  show ?thesis
  proof (cases "a \<in> MessageId ` set (leases first s)")
    case True
    then obtain x where "x \<in> set (leases first s)" "\<not> MessageId x \<noteq> a" by auto
    then have "takeWhile (\<lambda>x. MessageId x \<noteq> a) (leases first s @ leases second s1)
                 = takeWhile (\<lambda>x. MessageId x \<noteq> a) (leases first s)"
      by (rule takeWhile_append1)
    moreover have "set (takeWhile (\<lambda>x. MessageId x \<noteq> a) (leases first s)) \<subseteq> set (leases first s)"
      using set_takeWhileD by fastforce
    ultimately show ?thesis using no_b unfolding split leasedInOrder_def by auto
  next
    case False
    from new_a have "unleased a s" by (auto simp: unleased_def heldIds_def heldMessages_def)
    with False have u: "unleased a s1" unfolding s1_def by (intro unleased_run)
    from b_new have "b \<notin> MessageId ` set (queue s1)" by (auto simp: heldIds_def heldMessages_def)
    then have "queue s1 = queue s1 @ [] \<and> b \<notin> MessageId ` set (queue s1)
        \<and> a \<notin> MessageId ` set ([] :: OrderEventMessage list)" by simp
    then have q: "queuedInOrder a b (queue s1)" unfolding queuedInOrder_split by blast
    from leases_in_order [OF u q a_second] have second: "leasedInOrder a b (leases second s1)" .
    from False have "takeWhile (\<lambda>x. MessageId x \<noteq> a) (leases first s @ leases second s1)
                 = leases first s @ takeWhile (\<lambda>x. MessageId x \<noteq> a) (leases second s1)"
      by (intro takeWhile_append2) auto
    with second no_b False show ?thesis unfolding split leasedInOrder_def by auto
  qed
qed

theorem leases_follow_enqueue_order_witness:
  "leasedInOrder ''msg_1'' ''msg_2'' (leases twoEnqueues newOrderSQSService)
   \<and> map MessageId (leases twoEnqueues newOrderSQSService) = [''msg_1'', ''msg_2'']"
proof -
  have ops: "twoEnqueues =
      [] @ Send createAda ''msg_1'' ''receipt_1'' 1000 # [Cleanup 1500]
         @ Send updateMissing ''msg_2'' ''receipt_2'' 2000
         # [Receive 1, Delete ''receipt_1'', Receive 1]"
    by (simp add: twoEnqueues_def)
  have new: "''msg_1'' \<notin> heldIds newOrderSQSService"
    "''msg_1'' \<notin> processedMessages newOrderSQSService"
    "''msg_2'' \<notin> heldIds newOrderSQSService"
    by (simp_all add: heldIds_def heldMessages_def newOrderSQSService_def)
  have once: "''msg_2'' \<notin> sentIds ([] @ [Cleanup 1500])"
    "''msg_1'' \<notin> sentIds [Receive 1, Delete ''receipt_1'', Receive 1]"
    by (simp_all add: sentIds_def)
  have order: "leasedInOrder ''msg_1'' ''msg_2'' (leases twoEnqueues newOrderSQSService)"
    by (rule leases_follow_enqueue_order [OF ops _ new once]) simp
  have "map MessageId (leases twoEnqueues newOrderSQSService) = [''msg_1'', ''msg_2'']"
    by (simp add: twoEnqueues_def createAda_def updateMissing_def queue_defs cleanupTick_def
          deduplicationWindowMs_def)
  with order show ?thesis by simp
qed

end
